theory Spec2Isabelle
  imports Complex_Main "HOL-Library.AList"
begin

section \<open>JavaScript values\<close>

text \<open>
  The server of \<^verbatim>\<open>src/routes/index.tsx\<close> handles duck-typed data: whatever
  \<^verbatim>\<open>JSON.parse\<close> returns is read field by field and stored or relayed as it is.
  A value is therefore what \<^verbatim>\<open>JSON.parse\<close> can return, or \<^verbatim>\<open>undefined\<close>
  (what reading a missing property gives). A number is a double: \<open>JNum q\<close> is the
  finite double of value \<open>q\<close> (the positive zero for \<open>q = 0\<close>),
  \<open>JNegZero\<close> is the negative zero that \<^verbatim>\<open>-0\<close> parses to, and
  \<open>JInfinity\<close> and \<open>JNegInfinity\<close> are what a number beyond the range of the
  doubles parses to (\<^verbatim>\<open>1e400\<close>, \<^verbatim>\<open>-1e400\<close>). An object is the list of its
  own properties in order.
\<close>

datatype jsval =
    JUndefined
  | JNull
  | JBool bool
  | JNum rat
  | JNegZero
  | JInfinity
  | JNegInfinity
  | JStr string
  | JArr "jsval list"
  | JObj "(string \<times> jsval) list"

datatype js_error = SyntaxError | TypeError

text \<open>
  An inbound frame, seen through \<^verbatim>\<open>JSON.parse(message as string)\<close>: the call
  either throws (the text is not JSON, or the frame is an ArrayBuffer) or returns a value.
\<close>

datatype frame = Malformed | Parsed jsval

definition JSON_parse :: "frame \<Rightarrow> js_error + jsval" where
  "JSON_parse message = (case message of Malformed \<Rightarrow> Inl SyntaxError | Parsed v \<Rightarrow> Inr v)"

text \<open>
  Property access \<^verbatim>\<open>data.k\<close>, for the names the server reads (\<^verbatim>\<open>type\<close>,
  \<^verbatim>\<open>persistentUserId\<close>, \<^verbatim>\<open>position\<close>, \<^verbatim>\<open>normal\<close>, \<^verbatim>\<open>rgb\<close>,
  \<^verbatim>\<open>color\<close>, \<^verbatim>\<open>camera\<close>; no prototype defines any of them): a TypeError on
  \<^verbatim>\<open>null\<close> and \<^verbatim>\<open>undefined\<close>, the own property of an object,
  \<^verbatim>\<open>undefined\<close> otherwise.
\<close>

fun get_prop :: "jsval \<Rightarrow> string \<Rightarrow> js_error + jsval" where
  "get_prop JUndefined k = Inl TypeError"
| "get_prop JNull k = Inl TypeError"
| "get_prop (JObj kvs) k = Inr (case map_of kvs k of None \<Rightarrow> JUndefined | Some v \<Rightarrow> v)"
| "get_prop v k = Inr JUndefined"

text \<open>The same access where it cannot throw (the value is known not to be nullish).\<close>

definition read_prop :: "jsval \<Rightarrow> string \<Rightarrow> jsval" where
  "read_prop data k = (case get_prop data k of Inl e \<Rightarrow> JUndefined | Inr v \<Rightarrow> v)"

text \<open>Truthiness, as \<^verbatim>\<open>if (v)\<close> and \<^verbatim>\<open>a && b\<close> test it.\<close>

fun truthy :: "jsval \<Rightarrow> bool" where
  "truthy JUndefined = False"
| "truthy JNull = False"
| "truthy (JBool b) = b"
| "truthy (JNum n) = (n \<noteq> 0)"
| "truthy JNegZero = False"
| "truthy JInfinity = True"
| "truthy JNegInfinity = True"
| "truthy (JStr s) = (s \<noteq> [])"
| "truthy (JArr vs) = True"
| "truthy (JObj kvs) = True"

text \<open>
  Strict equality \<^verbatim>\<open>a === b\<close> between a value held by one session and a value
  parsed from a later frame: primitives compare by value, the two zeros being equal;
  objects and arrays compare by reference, and two values that come from two calls of
  \<^verbatim>\<open>JSON.parse\<close> are never the same object.
\<close>

fun strict_eq :: "jsval \<Rightarrow> jsval \<Rightarrow> bool" where
  "strict_eq JUndefined b = (b = JUndefined)"
| "strict_eq JNull b = (b = JNull)"
| "strict_eq (JBool x) b = (b = JBool x)"
| "strict_eq (JNum x) b = (b = JNum x \<or> (x = 0 \<and> b = JNegZero))"
| "strict_eq JNegZero b = (b = JNegZero \<or> b = JNum 0)"
| "strict_eq JInfinity b = (b = JInfinity)"
| "strict_eq JNegInfinity b = (b = JNegInfinity)"
| "strict_eq (JStr x) b = (b = JStr x)"
| "strict_eq (JArr x) b = False"
| "strict_eq (JObj x) b = False"

text \<open>
  What a receiver reads from the text that \<^verbatim>\<open>JSON.stringify\<close> writes for a value
  (its own \<^verbatim>\<open>JSON.parse\<close> of that text). A finite double is written with digits
  that parse back to it, but the negative zero is written \<^verbatim>\<open>0\<close> and an infinite
  number \<^verbatim>\<open>null\<close>; a property whose value is \<^verbatim>\<open>undefined\<close> is left out,
  and an \<^verbatim>\<open>undefined\<close> element of an array is written \<^verbatim>\<open>null\<close>. For
  \<^verbatim>\<open>undefined\<close> itself no text is written.
\<close>

primrec wire :: "jsval \<Rightarrow> jsval" where
  "wire JUndefined = JUndefined"
| "wire JNull = JNull"
| "wire (JBool b) = JBool b"
| "wire (JNum q) = JNum q"
| "wire JNegZero = JNum 0"
| "wire JInfinity = JNull"
| "wire JNegInfinity = JNull"
| "wire (JStr s) = JStr s"
| "wire (JArr vs) = JArr (map (\<lambda>w. if w = JUndefined then JNull else w) (map wire vs))"
| "wire (JObj kvs) = JObj (filter (\<lambda>kv. snd kv \<noteq> JUndefined) (map (map_prod id wire) kvs))"

text \<open>
  The values that come through unchanged: those that hold no negative zero, no infinite
  number and no \<^verbatim>\<open>undefined\<close>.
\<close>

primrec plain :: "jsval \<Rightarrow> bool" where
  "plain JUndefined = False"
| "plain JNull = True"
| "plain (JBool b) = True"
| "plain (JNum q) = True"
| "plain JNegZero = False"
| "plain JInfinity = False"
| "plain JNegInfinity = False"
| "plain (JStr s) = True"
| "plain (JArr vs) = list_all (\<lambda>b. b) (map plain vs)"
| "plain (JObj kvs) = list_all (\<lambda>b. b) (map (\<lambda>kv. snd kv) (map (map_prod id plain) kvs))"

section \<open>Double arithmetic\<close>

text \<open>
  The numbers of \<^verbatim>\<open>generateRandomColor\<close> are doubles, and each of its operations
  \<^verbatim>\<open>*\<close> and \<^verbatim>\<open>+\<close> returns the double nearest to the exact result, a tie going
  to the even significand. \<open>fl\<close> is that rounding on the rationals, for magnitudes
  below \<^verbatim>\<open>2^1024\<close> (the server's numbers stay within \<open>[0, 360]\<close>): a positive
  number of the binade \<open>[2 powi e, 2 powi (e + 1))\<close> is rounded to a multiple of
  \<open>2 powi (e - 52)\<close>, where \<open>e\<close> is not taken below \<open>-1022\<close> (the subnormal
  numbers). \<open>rne\<close> rounds to the nearest integer, a tie to the even one;
  \<open>exponent\<close> finds \<open>e\<close> by halving or doubling. A double is a fixed point of
  \<open>fl\<close>.
\<close>

definition rne :: "rat \<Rightarrow> int" where
  "rne x = (let f = \<lfloor>x\<rfloor>; d = x - of_int f
            in if d < 1 / 2 then f
               else if 1 / 2 < d then f + 1
               else if even f then f else f + 1)"

fun halvings :: "nat \<Rightarrow> rat \<Rightarrow> nat" where
  "halvings 0 x = 0"
| "halvings (Suc n) x = (if x < 2 then 0 else Suc (halvings n (x / 2)))"

fun doublings :: "nat \<Rightarrow> rat \<Rightarrow> nat" where
  "doublings 0 x = 0"
| "doublings (Suc n) x = (if 1 \<le> x then 0 else Suc (doublings n (x * 2)))"

definition exponent :: "rat \<Rightarrow> int" where
  "exponent x = (if 1 \<le> x then int (halvings 1023 x) else - int (doublings 1022 x))"

definition ulp :: "rat \<Rightarrow> rat" where
  "ulp x = 2 powi (exponent x - 52)"

definition fl :: "rat \<Rightarrow> rat" where
  "fl x = (if x = 0 then 0
           else if 0 < x then ulp x * of_int (rne (x / ulp x))
           else - (ulp (- x) * of_int (rne (- x / ulp (- x)))))"

section \<open>The state of ColorPickerServer\<close>

text \<open>
  The value type of the \<^verbatim>\<open>connectedUsers\<close> map. An optional field that was never
  written reads as \<^verbatim>\<open>undefined\<close>, and so does one that was assigned
  \<^verbatim>\<open>undefined\<close>: both are \<^const>\<open>JUndefined\<close> here.
\<close>

record session =
  color :: jsval
  persistentUserId :: jsval
  lastCursorPosition :: jsval
  lastCursorNormal :: jsval

text \<open>
  \<^verbatim>\<open>connectedUsers\<close> is a JavaScript Map, iterated in insertion order: an association
  list, with \<^const>\<open>map_of\<close> for \<^verbatim>\<open>get\<close>, \<^const>\<open>AList.update\<close> for
  \<^verbatim>\<open>set\<close> (an existing key keeps its place, a new one goes last) and
  \<^const>\<open>AList.delete\<close> for \<^verbatim>\<open>delete\<close>. \<^verbatim>\<open>connections\<close> is what the
  transport's \<^verbatim>\<open>getConnections()\<close> yields: the ids of the open connections. The
  server never writes it; the transport does, on connect and on close. The state is that
  of one server object for as long as it lives in memory.
\<close>

record server =
  connectedUsers :: "(string \<times> session) list"
  connections :: "string list"

text \<open>
  What a handler does to the outside: \<^verbatim>\<open>conn.send(JSON.stringify(m))\<close> on the
  connection with the given id, and \<^verbatim>\<open>this.broadcast(JSON.stringify(m), without)\<close>.
  The message is the object handed to \<^verbatim>\<open>JSON.stringify\<close>; what its receivers
  read is \<open>wire\<close> of it. Console output is left out.
\<close>

datatype effect =
    Send string jsval
  | Broadcast jsval "string list"

text \<open>Who receives an effect, given the open connections at that moment.\<close>

fun recipients :: "string list \<Rightarrow> effect \<Rightarrow> string list" where
  "recipients conns (Send c m) = [c]"
| "recipients conns (Broadcast m without) = filter (\<lambda>c. c \<notin> set without) conns"

fun payload :: "effect \<Rightarrow> jsval" where
  "payload (Send c m) = m"
| "payload (Broadcast m without) = m"

text \<open>The messages one connection receives from a run of effects, in order.\<close>

definition delivered :: "string list \<Rightarrow> effect list \<Rightarrow> string \<Rightarrow> jsval list" where
  "delivered conns effs c = map payload (filter (\<lambda>e. c \<in> set (recipients conns e)) effs)"

section \<open>The handlers\<close>

text \<open>
  \<^verbatim>\<open>generateRandomColor\<close>. The three results of \<^verbatim>\<open>Math.random()\<close>, doubles in
  \<open>[0, 1)\<close>, are an argument, in the order of the calls; so is the conversion of a
  number to text that the template string applies. Every product and sum is rounded to a
  double; \<^verbatim>\<open>Math.floor\<close> is exact.
\<close>

definition generateRandomColor :: "(rat \<Rightarrow> string) \<Rightarrow> rat \<times> rat \<times> rat \<Rightarrow> string" where
  "generateRandomColor num_str rnd =
     (case rnd of (r1, r2, r3) \<Rightarrow>
        let hue = of_int \<lfloor>fl (r1 * 360)\<rfloor>;
            saturation = fl (70 + fl (r2 * 30));
            lightness = fl (50 + fl (r3 * 20))
        in ''hsl('' @ num_str hue @ '', '' @ num_str saturation @ ''%, ''
           @ num_str lightness @ ''%)'')"

definition broadcastUserCount :: "server \<Rightarrow> effect list" where
  "broadcastUserCount st =
     (let userCount = length (connections st)
      in [Broadcast (JObj [(''type'', JStr ''user-count''),
                           (''count'', JNum (of_nat userCount))]) []])"

text \<open>\<^verbatim>\<open>sendExistingUsers\<close>: the loop over the entries of the map.\<close>

fun sendExistingUsers_loop :: "string \<Rightarrow> (string \<times> session) list \<Rightarrow> effect list" where
  "sendExistingUsers_loop conn [] = []"
| "sendExistingUsers_loop conn ((sessionId, user) # rest) =
     (if sessionId \<noteq> conn then
        Send conn (JObj [(''type'', JStr ''user-joined''),
                         (''sessionId'', JStr sessionId),
                         (''color'', color user)])
        # (if truthy (lastCursorPosition user) \<and> truthy (lastCursorNormal user) then
             [Send conn (JObj [(''type'', JStr ''cursor-move''),
                               (''sessionId'', JStr sessionId),
                               (''position'', lastCursorPosition user),
                               (''normal'', lastCursorNormal user),
                               (''color'', color user)])]
           else [])
      else [])
     @ sendExistingUsers_loop conn rest"

definition sendExistingUsers :: "string \<Rightarrow> server \<Rightarrow> effect list" where
  "sendExistingUsers conn st = sendExistingUsers_loop conn (connectedUsers st)"

definition onConnect ::
  "(rat \<Rightarrow> string) \<Rightarrow> rat \<times> rat \<times> rat \<Rightarrow> string \<Rightarrow> server \<Rightarrow> server \<times> effect list" where
  "onConnect num_str rnd conn st =
     (let userColor = generateRandomColor num_str rnd;
          st1 = st\<lparr>connectedUsers :=
                     AList.update conn
                       \<lparr>color = JStr userColor, persistentUserId = JUndefined,
                        lastCursorPosition = JUndefined, lastCursorNormal = JUndefined\<rparr>
                       (connectedUsers st)\<rparr>
      in (st1,
          sendExistingUsers conn st1
          @ [Send conn (JObj [(''type'', JStr ''user-joined''),
                              (''sessionId'', JStr conn),
                              (''color'', JStr userColor)])]
          @ [Broadcast (JObj [(''type'', JStr ''user-joined''),
                              (''sessionId'', JStr conn),
                              (''color'', JStr userColor)]) [conn]]
          @ broadcastUserCount st1))"

text \<open>
  \<^verbatim>\<open>cleanupOldSessions\<close>: the first loop collects the ids to remove, the
  \<^verbatim>\<open>forEach\<close> deletes each and broadcasts its departure.
\<close>

definition toRemove :: "jsval \<Rightarrow> string \<Rightarrow> server \<Rightarrow> string list" where
  "toRemove pid currentSessionId st =
     map fst (filter (\<lambda>(sessionId, user).
                        strict_eq (persistentUserId user) pid \<and> sessionId \<noteq> currentSessionId)
                     (connectedUsers st))"

fun removeSessions :: "string list \<Rightarrow> server \<Rightarrow> server \<times> effect list" where
  "removeSessions [] st = (st, [])"
| "removeSessions (sessionId # rest) st =
     (let st1 = st\<lparr>connectedUsers := AList.delete sessionId (connectedUsers st)\<rparr>;
          eff = Broadcast (JObj [(''type'', JStr ''user-disconnect''),
                                 (''sessionId'', JStr sessionId)]) []
      in case removeSessions rest st1 of (st2, effs) \<Rightarrow> (st2, eff # effs))"

definition cleanupOldSessions :: "jsval \<Rightarrow> string \<Rightarrow> server \<Rightarrow> server \<times> effect list" where
  "cleanupOldSessions pid currentSessionId st =
     removeSessions (toRemove pid currentSessionId st) st"

text \<open>The five cases of the \<^verbatim>\<open>switch\<close> in \<^verbatim>\<open>onMessage\<close>.\<close>

definition on_identify :: "string \<Rightarrow> jsval \<Rightarrow> server \<Rightarrow> server \<times> effect list" where
  "on_identify sender data st =
     (let confirmation = Send sender (JObj [(''type'', JStr ''user-identified''),
                                            (''sessionId'', JStr sender)])
      in case map_of (connectedUsers st) sender of
           Some existingUser \<Rightarrow>
             (let st1 = st\<lparr>connectedUsers :=
                            AList.update sender
                              (existingUser\<lparr>persistentUserId := read_prop data ''persistentUserId''\<rparr>)
                              (connectedUsers st)\<rparr>
              in case cleanupOldSessions (read_prop data ''persistentUserId'') sender st1 of
                   (st2, effs) \<Rightarrow> (st2, effs @ [confirmation]))
         | None \<Rightarrow> (st, [confirmation]))"

definition on_cursor_move :: "string \<Rightarrow> jsval \<Rightarrow> server \<Rightarrow> server \<times> effect list" where
  "on_cursor_move sender data st =
     (case map_of (connectedUsers st) sender of
        Some user \<Rightarrow>
          (st\<lparr>connectedUsers :=
                AList.update sender
                  (user\<lparr>lastCursorPosition := read_prop data ''position'',
                        lastCursorNormal := read_prop data ''normal''\<rparr>)
                  (connectedUsers st)\<rparr>,
           [Broadcast (JObj [(''type'', JStr ''cursor-move''),
                             (''sessionId'', JStr sender),
                             (''position'', read_prop data ''position''),
                             (''normal'', read_prop data ''normal''),
                             (''color'', color user),
                             (''rgb'', read_prop data ''rgb'')]) [sender]])
      | None \<Rightarrow> (st, []))"

definition on_cursor_leave :: "string \<Rightarrow> jsval \<Rightarrow> server \<Rightarrow> server \<times> effect list" where
  "on_cursor_leave sender data st =
     (st, [Broadcast (JObj [(''type'', JStr ''cursor-leave''),
                            (''sessionId'', JStr sender)]) [sender]])"

definition on_user_color_change :: "string \<Rightarrow> jsval \<Rightarrow> server \<Rightarrow> server \<times> effect list" where
  "on_user_color_change sender data st =
     (case map_of (connectedUsers st) sender of
        Some userToUpdate \<Rightarrow>
          (st\<lparr>connectedUsers :=
                AList.update sender (userToUpdate\<lparr>color := read_prop data ''color''\<rparr>)
                  (connectedUsers st)\<rparr>,
           [Broadcast (JObj [(''type'', JStr ''user-color-change''),
                             (''sessionId'', JStr sender),
                             (''color'', read_prop data ''color'')]) []])
      | None \<Rightarrow> (st, []))"

definition on_camera_sync :: "string \<Rightarrow> jsval \<Rightarrow> server \<Rightarrow> server \<times> effect list" where
  "on_camera_sync sender data st =
     (st, [Broadcast (JObj [(''type'', JStr ''camera-sync''),
                            (''camera'', read_prop data ''camera'')]) [sender]])"

text \<open>
  The body of the \<^verbatim>\<open>try\<close>: parse, read \<^verbatim>\<open>data.type\<close>, switch on it with
  \<^verbatim>\<open>===\<close>. No case matches a type that is not one of the five strings, and then
  nothing happens.
\<close>

definition try_body :: "string \<Rightarrow> frame \<Rightarrow> server \<Rightarrow> js_error + (server \<times> effect list)" where
  "try_body sender message st =
     (case JSON_parse message of
        Inl e \<Rightarrow> Inl e
      | Inr data \<Rightarrow>
          (case get_prop data ''type'' of
             Inl e \<Rightarrow> Inl e
           | Inr t \<Rightarrow>
               Inr (if t = JStr ''identify'' then on_identify sender data st
                    else if t = JStr ''cursor-move'' then on_cursor_move sender data st
                    else if t = JStr ''cursor-leave'' then on_cursor_leave sender data st
                    else if t = JStr ''user-color-change'' then on_user_color_change sender data st
                    else if t = JStr ''camera-sync'' then on_camera_sync sender data st
                    else (st, []))))"

text \<open>
  \<^verbatim>\<open>onMessage\<close>: the \<^verbatim>\<open>catch\<close> only logs. Both throwing steps come before any
  write to the state, so the state of the \<^verbatim>\<open>catch\<close> branch is the one the handler
  started with.
\<close>

definition onMessage :: "string \<Rightarrow> frame \<Rightarrow> server \<Rightarrow> server \<times> effect list" where
  "onMessage sender message st =
     (case try_body sender message st of
        Inl error \<Rightarrow> (st, [])
      | Inr r \<Rightarrow> r)"

definition onClose :: "string \<Rightarrow> server \<Rightarrow> server \<times> effect list" where
  "onClose connection st =
     (let st1 = st\<lparr>connectedUsers := AList.delete connection (connectedUsers st)\<rparr>
      in (st1,
          [Broadcast (JObj [(''type'', JStr ''user-disconnect''),
                            (''sessionId'', JStr connection)]) []]
          @ broadcastUserCount st1))"

section \<open>The transport\<close>

text \<open>
  The events the transport delivers to the server, one at a time. A connect puts the new
  connection among the open ones before \<^verbatim>\<open>onConnect\<close> runs; a close takes it out
  before \<^verbatim>\<open>onClose\<close> runs (\<^verbatim>\<open>getConnections()\<close> yields open connections only).
  The transport gives an id to one open connection at a time, and delivers messages and
  closes of open connections only: that is \<open>enabled\<close>.
\<close>

datatype event =
    Connect string "rat \<times> rat \<times> rat"
  | Message string frame
  | Close string

definition initial :: server where
  "initial = \<lparr>connectedUsers = [], connections = []\<rparr>"

fun step :: "(rat \<Rightarrow> string) \<Rightarrow> server \<Rightarrow> event \<Rightarrow> server \<times> effect list" where
  "step num_str st (Connect c rnd) =
     onConnect num_str rnd c (st\<lparr>connections := connections st @ [c]\<rparr>)"
| "step num_str st (Message c m) = onMessage c m st"
| "step num_str st (Close c) =
     onClose c (st\<lparr>connections := filter (\<lambda>d. d \<noteq> c) (connections st)\<rparr>)"

fun enabled :: "server \<Rightarrow> event \<Rightarrow> bool" where
  "enabled st (Connect c rnd) = (c \<notin> set (connections st))"
| "enabled st (Message c m) = (c \<in> set (connections st))"
| "enabled st (Close c) = (c \<in> set (connections st))"

text \<open>The history of a run: after each event, the state reached and the effects issued.\<close>

fun run :: "(rat \<Rightarrow> string) \<Rightarrow> server \<Rightarrow> event list \<Rightarrow> (server \<times> effect list) list" where
  "run num_str st [] = []"
| "run num_str st (ev # evs) =
     (case step num_str st ev of (st1, effs) \<Rightarrow> (st1, effs) # run num_str st1 evs)"

fun final :: "(rat \<Rightarrow> string) \<Rightarrow> server \<Rightarrow> event list \<Rightarrow> server" where
  "final num_str st [] = st"
| "final num_str st (ev # evs) = final num_str (fst (step num_str st ev)) evs"

section \<open>Notions of the specification\<close>

text \<open>
  A roster entry, in the words of the specification: the \<^verbatim>\<open>user-joined\<close> message
  of one session that was there before, followed by the replay of its cursor when the
  session holds both a last position and a last normal. Holding one is the test the
  server applies, \<^const>\<open>truthy\<close>: it is true of every object and array (the 3D
  vectors the clients send) and false of \<^verbatim>\<open>undefined\<close>.
\<close>

definition roster_entry :: "string \<Rightarrow> string \<times> session \<Rightarrow> effect list" where
  "roster_entry conn entry =
     (case entry of (sessionId, user) \<Rightarrow>
        [Send conn (JObj [(''type'', JStr ''user-joined''),
                          (''sessionId'', JStr sessionId),
                          (''color'', color user)])]
        @ (if truthy (lastCursorPosition user) \<and> truthy (lastCursorNormal user) then
             [Send conn (JObj [(''type'', JStr ''cursor-move''),
                               (''sessionId'', JStr sessionId),
                               (''position'', lastCursorPosition user),
                               (''normal'', lastCursorNormal user),
                               (''color'', color user)])]
           else []))"

text \<open>The sessions of the table other than the one of the given connection.\<close>

definition others :: "string \<Rightarrow> (string \<times> session) list \<Rightarrow> (string \<times> session) list" where
  "others conn users = filter (\<lambda>entry. fst entry \<noteq> conn) users"

text \<open>A \<^verbatim>\<open>user-count\<close> message, and the count it carries.\<close>

definition is_user_count :: "effect \<Rightarrow> bool" where
  "is_user_count e = (read_prop (payload e) ''type'' = JStr ''user-count'')"

definition count_of :: "effect \<Rightarrow> jsval" where
  "count_of e = read_prop (payload e) ''count''"

text \<open>
  A run the transport can produce (every event is enabled when it happens) in which no
  message takes a session out of the table.
\<close>

fun no_eviction :: "(rat \<Rightarrow> string) \<Rightarrow> server \<Rightarrow> event list \<Rightarrow> bool" where
  "no_eviction num_str st [] = True"
| "no_eviction num_str st (ev # evs) =
     (enabled st ev
      \<and> (case ev of
           Message c m \<Rightarrow>
             map fst (connectedUsers (fst (onMessage c m st))) = map fst (connectedUsers st)
         | _ \<Rightarrow> True)
      \<and> no_eviction num_str (fst (step num_str st ev)) evs)"

fun all_enabled :: "(rat \<Rightarrow> string) \<Rightarrow> server \<Rightarrow> event list \<Rightarrow> bool" where
  "all_enabled num_str st [] = True"
| "all_enabled num_str st (ev # evs) =
     (enabled st ev \<and> all_enabled num_str (fst (step num_str st ev)) evs)"

text \<open>
  The table and the transport agree: the sessions are those of the open connections, one
  each.
\<close>

definition consistent :: "server \<Rightarrow> bool" where
  "consistent st \<longleftrightarrow>
     distinct (connections st) \<and> distinct (map fst (connectedUsers st))
     \<and> set (map fst (connectedUsers st)) = set (connections st)"

text \<open>
  Every session of the table has its colour set: the field does not read as
  \<^verbatim>\<open>undefined\<close>. An event carries its colour unless it is a
  \<^verbatim>\<open>user-color-change\<close> frame whose \<^verbatim>\<open>color\<close> is missing.
\<close>

definition colors_set :: "server \<Rightarrow> bool" where
  "colors_set st = list_all (\<lambda>entry. color (snd entry) \<noteq> JUndefined) (connectedUsers st)"

fun carries_color :: "event \<Rightarrow> bool" where
  "carries_color (Message c (Parsed data)) =
     (get_prop data ''type'' = Inr (JStr ''user-color-change'')
      \<longrightarrow> read_prop data ''color'' \<noteq> JUndefined)"
| "carries_color ev = True"

section \<open>Example rooms and runs\<close>

text \<open>A concrete state, used where a statement is evaluated on an example.\<close>

definition room2 :: server where
  "room2 = \<lparr>connectedUsers =
              [(''a'', \<lparr>color = JStr ''red'', persistentUserId = JUndefined,
                        lastCursorPosition = JUndefined, lastCursorNormal = JUndefined\<rparr>),
               (''b'', \<lparr>color = JStr ''blue'', persistentUserId = JUndefined,
                        lastCursorPosition = JUndefined, lastCursorNormal = JUndefined\<rparr>)],
            connections = [''a'', ''b'']\<rparr>"

text \<open>
  A second one: session \<open>a\<close> has identified itself and reported a cursor, session
  \<open>b\<close> has done neither, and connection \<open>c\<close> is open with no session yet.
\<close>

definition room3 :: server where
  "room3 = \<lparr>connectedUsers =
              [(''a'', \<lparr>color = JStr ''red'', persistentUserId = JStr ''u1'',
                        lastCursorPosition = JObj [(''x'', JNum 1), (''y'', JNum 2), (''z'', JNum 3)],
                        lastCursorNormal = JObj [(''x'', JNum 0), (''y'', JNum 0), (''z'', JNum 1)]\<rparr>),
               (''b'', \<lparr>color = JStr ''blue'', persistentUserId = JUndefined,
                        lastCursorPosition = JUndefined, lastCursorNormal = JUndefined\<rparr>)],
            connections = [''a'', ''b'', ''c'']\<rparr>"

text \<open>A number formatting for the examples, none of which depends on it.\<close>

definition no_digits :: "rat \<Rightarrow> string" where
  "no_digits r = ''n''"

text \<open>
  Three runs from the empty room. In the first, \<open>a\<close> and \<open>b\<close> connect and
  identify themselves with the same persistent id, \<open>b\<close> last. The second goes on
  with the connect of \<open>c\<close>. The third has no identify: \<open>a\<close> and \<open>b\<close>
  connect, \<open>a\<close> leaves.
\<close>

definition eviction_run :: "event list" where
  "eviction_run =
     [Connect ''a'' (0, 0, 0),
      Connect ''b'' (0, 0, 0),
      Message ''a'' (Parsed (JObj [(''type'', JStr ''identify''), (''persistentUserId'', JStr ''u1'')])),
      Message ''b'' (Parsed (JObj [(''type'', JStr ''identify''), (''persistentUserId'', JStr ''u1'')]))]"

definition ghost_run :: "event list" where
  "ghost_run = eviction_run @ [Connect ''c'' (0, 0, 0)]"

definition calm_run :: "event list" where
  "calm_run = [Connect ''a'' (0, 0, 0), Connect ''b'' (0, 0, 0), Close ''a'']"

text \<open>
  Two more runs: \<open>a\<close> connects and changes its colour, with a frame that names the
  new colour in the first and with one that names none in the second.
\<close>

definition recolor_run :: "event list" where
  "recolor_run =
     [Connect ''a'' (0, 0, 0),
      Message ''a'' (Parsed (JObj [(''type'', JStr ''user-color-change''),
                                   (''color'', JStr ''green'')]))]"

definition colorless_run :: "event list" where
  "colorless_run =
     [Connect ''a'' (0, 0, 0),
      Message ''a'' (Parsed (JObj [(''type'', JStr ''user-color-change'')]))]"

text \<open>
  A number formatting that prints the non-negative integers in decimal, as JavaScript
  does (below \<^verbatim>\<open>1e21\<close>); the examples that use it print no other number. And the
  largest double below 1.
\<close>

fun show_nat :: "nat \<Rightarrow> string" where
  "show_nat n =
     (if n < 10 then [''0123456789'' ! n]
      else show_nat (n div 10) @ [''0123456789'' ! (n mod 10)])"

declare show_nat.simps [simp del]

definition decimal :: "rat \<Rightarrow> string" where
  "decimal x = (if 0 \<le> x \<and> x = of_int \<lfloor>x\<rfloor> then show_nat (nat \<lfloor>x\<rfloor>) else ''?'')"

definition top_draw :: rat where
  "top_draw = 1 - 1 / 2 ^ 53"

section \<open>Reading a frame\<close>

lemma onMessage_Malformed: "onMessage sender Malformed st = (st, [])"
  by (simp add: onMessage_def try_body_def JSON_parse_def)

lemma onMessage_identify:
  "map_of kvs ''type'' = Some (JStr ''identify'') \<Longrightarrow>
   onMessage sender (Parsed (JObj kvs)) st = on_identify sender (JObj kvs) st"
  by (simp add: onMessage_def try_body_def JSON_parse_def)

lemma onMessage_cursor_move:
  "map_of kvs ''type'' = Some (JStr ''cursor-move'') \<Longrightarrow>
   onMessage sender (Parsed (JObj kvs)) st = on_cursor_move sender (JObj kvs) st"
  by (simp add: onMessage_def try_body_def JSON_parse_def)

lemma onMessage_user_color_change:
  "map_of kvs ''type'' = Some (JStr ''user-color-change'') \<Longrightarrow>
   onMessage sender (Parsed (JObj kvs)) st = on_user_color_change sender (JObj kvs) st"
  by (simp add: onMessage_def try_body_def JSON_parse_def)

lemma onMessage_camera_sync:
  "map_of kvs ''type'' = Some (JStr ''camera-sync'') \<Longrightarrow>
   onMessage sender (Parsed (JObj kvs)) st = on_camera_sync sender (JObj kvs) st"
  by (simp add: onMessage_def try_body_def JSON_parse_def)

lemma read_prop_obj: "map_of kvs k = Some v \<Longrightarrow> read_prop (JObj kvs) k = v"
  by (simp add: read_prop_def)

section \<open>Cursor updates\<close>

text \<open>
  Claim C3. A \<^verbatim>\<open>cursor-move\<close> frame from a sender whose session is registered is
  answered by one broadcast to the other connections, and the colour in it is the one
  stored on the sender's session, whatever the frame holds (the properties \<open>kvs\<close> of
  the frame are arbitrary, its \<^verbatim>\<open>color\<close> among them).
\<close>

theorem cursor_move_uses_server_color:
  assumes "map_of (connectedUsers st) sender = Some user"
    and "map_of kvs ''type'' = Some (JStr ''cursor-move'')"
  shows "let b = Broadcast (JObj [(''type'', JStr ''cursor-move''),
                                  (''sessionId'', JStr sender),
                                  (''position'', read_prop (JObj kvs) ''position''),
                                  (''normal'', read_prop (JObj kvs) ''normal''),
                                  (''color'', color user),
                                  (''rgb'', read_prop (JObj kvs) ''rgb'')]) [sender]
         in snd (onMessage sender (Parsed (JObj kvs)) st) = [b]
            \<and> read_prop (payload b) ''color'' = color user
            \<and> recipients (connections st) b = filter (\<lambda>c. c \<noteq> sender) (connections st)"
  using assms by (simp add: onMessage_cursor_move on_cursor_move_def read_prop_def)

theorem cursor_move_uses_server_color_witness:
  "map_of (connectedUsers room2) ''a'' =
     Some \<lparr>color = JStr ''red'', persistentUserId = JUndefined,
           lastCursorPosition = JUndefined, lastCursorNormal = JUndefined\<rparr>
   \<and> map_of [(''type'', JStr ''cursor-move''), (''position'', JObj []), (''normal'', JObj []),
              (''color'', JStr ''green'')] ''type'' = Some (JStr ''cursor-move'')
   \<and> snd (onMessage ''a''
            (Parsed (JObj [(''type'', JStr ''cursor-move''), (''position'', JObj []),
                           (''normal'', JObj []), (''color'', JStr ''green'')])) room2) =
       [Broadcast (JObj [(''type'', JStr ''cursor-move''), (''sessionId'', JStr ''a''),
                         (''position'', JObj []), (''normal'', JObj []),
                         (''color'', JStr ''red''), (''rgb'', JUndefined)]) [''a'']]"
proof -
  have h1: "map_of (connectedUsers room2) ''a'' =
     Some \<lparr>color = JStr ''red'', persistentUserId = JUndefined,
           lastCursorPosition = JUndefined, lastCursorNormal = JUndefined\<rparr>"
    by (simp add: room2_def)
  have h2: "map_of [(''type'', JStr ''cursor-move''), (''position'', JObj []), (''normal'', JObj []),
              (''color'', JStr ''green'')] ''type'' = Some (JStr ''cursor-move'')"
    by simp
  show ?thesis
    using h1 h2 cursor_move_uses_server_color [OF h1 h2]
    by (simp add: Let_def read_prop_def)
qed

text \<open>
  Claim C6. A \<^verbatim>\<open>cursor-move\<close> frame from a sender with no registered session is
  dropped: the handler issues no effect at all (no broadcast, nothing to any connection)
  and returns the state it was given.
\<close>

theorem cursor_move_without_session_dropped:
  assumes "map_of (connectedUsers st) sender = None"
    and "map_of kvs ''type'' = Some (JStr ''cursor-move'')"
  shows "onMessage sender (Parsed (JObj kvs)) st = (st, [])"
  using assms by (simp add: onMessage_cursor_move on_cursor_move_def)

theorem cursor_move_without_session_dropped_witness:
  "map_of (connectedUsers room2) ''z'' = None
   \<and> map_of [(''type'', JStr ''cursor-move''), (''position'', JObj [])] ''type''
       = Some (JStr ''cursor-move'')
   \<and> onMessage ''z'' (Parsed (JObj [(''type'', JStr ''cursor-move''), (''position'', JObj [])]))
        room2 = (room2, [])"
proof -
  have h1: "map_of (connectedUsers room2) ''z'' = None"
    by (simp add: room2_def)
  have h2: "map_of [(''type'', JStr ''cursor-move''), (''position'', JObj [])] ''type''
       = Some (JStr ''cursor-move'')"
    by simp
  show ?thesis
    using h1 h2 cursor_move_without_session_dropped [OF h1 h2] by simp
qed

section \<open>Colour change\<close>

text \<open>
  Claim C7. A \<^verbatim>\<open>user-color-change\<close> frame from a sender with a registered session
  overwrites the colour of that session with the frame's \<^verbatim>\<open>color\<close>, and issues one
  broadcast with the sender's id and that colour and with no connection excluded: its
  recipients are all the open connections, the sender among them.
\<close>

theorem color_change_overwrites_and_reaches_all:
  assumes "map_of (connectedUsers st) sender = Some user"
    and "map_of kvs ''type'' = Some (JStr ''user-color-change'')"
    and "onMessage sender (Parsed (JObj kvs)) st = (st', effs)"
  shows "let c = read_prop (JObj kvs) ''color'';
             b = Broadcast (JObj [(''type'', JStr ''user-color-change''),
                                  (''sessionId'', JStr sender),
                                  (''color'', c)]) []
         in map_of (connectedUsers st') sender = Some (user\<lparr>color := c\<rparr>)
            \<and> effs = [b]
            \<and> connections st' = connections st
            \<and> recipients (connections st') b = connections st'
            \<and> (sender \<in> set (connections st') \<longrightarrow> sender \<in> set (recipients (connections st') b))"
  using assms
  by (auto simp add: onMessage_user_color_change on_user_color_change_def Let_def
      AList.update_conv')

theorem color_change_overwrites_and_reaches_all_witness:
  "map_of (connectedUsers room2) ''a'' =
     Some \<lparr>color = JStr ''red'', persistentUserId = JUndefined,
           lastCursorPosition = JUndefined, lastCursorNormal = JUndefined\<rparr>
   \<and> map_of (connectedUsers
        (fst (onMessage ''a''
               (Parsed (JObj [(''type'', JStr ''user-color-change''), (''color'', JStr ''green'')]))
               room2))) ''a'' =
     Some \<lparr>color = JStr ''green'', persistentUserId = JUndefined,
           lastCursorPosition = JUndefined, lastCursorNormal = JUndefined\<rparr>
   \<and> snd (onMessage ''a''
            (Parsed (JObj [(''type'', JStr ''user-color-change''), (''color'', JStr ''green'')]))
            room2) =
       [Broadcast (JObj [(''type'', JStr ''user-color-change''), (''sessionId'', JStr ''a''),
                         (''color'', JStr ''green'')]) []]
   \<and> ''a'' \<in> set (recipients (connections room2)
        (Broadcast (JObj [(''type'', JStr ''user-color-change''), (''sessionId'', JStr ''a''),
                          (''color'', JStr ''green'')]) []))"
proof -
  have h1: "map_of (connectedUsers room2) ''a'' =
     Some \<lparr>color = JStr ''red'', persistentUserId = JUndefined,
           lastCursorPosition = JUndefined, lastCursorNormal = JUndefined\<rparr>"
    by (simp add: room2_def)
  have h2: "map_of [(''type'', JStr ''user-color-change''), (''color'', JStr ''green'')] ''type''
       = Some (JStr ''user-color-change'')"
    by simp
  have h3: "onMessage ''a''
      (Parsed (JObj [(''type'', JStr ''user-color-change''), (''color'', JStr ''green'')])) room2
    = (fst (onMessage ''a''
         (Parsed (JObj [(''type'', JStr ''user-color-change''), (''color'', JStr ''green'')])) room2),
       snd (onMessage ''a''
         (Parsed (JObj [(''type'', JStr ''user-color-change''), (''color'', JStr ''green'')])) room2))"
    by simp
  have h4: "''a'' \<in> set (connections room2)"
    by (simp add: room2_def)
  show ?thesis
    using h1 h4 color_change_overwrites_and_reaches_all [OF h1 h2 h3]
    by (simp add: Let_def read_prop_def)
qed

section \<open>Camera relay\<close>

lemma wire_plain: "plain v \<Longrightarrow> wire v = v"
proof (induction v)
  case (JArr vs)
  then have "\<forall>v \<in> set vs. wire v = v \<and> v \<noteq> JUndefined"
    by (auto simp add: list_all_iff)
  then have "map (\<lambda>w. if w = JUndefined then JNull else w) (map wire vs) = vs"
    by (induction vs) auto
  then show ?case by simp
next
  case (JObj kvs)
  then have "\<forall>kv \<in> set kvs. wire (snd kv) = snd kv \<and> snd kv \<noteq> JUndefined"
    by (fastforce simp add: list_all_iff)
  then have "filter (\<lambda>kv. snd kv \<noteq> JUndefined) (map (map_prod id wire) kvs) = kvs"
    by (induction kvs) auto
  then show ?case by simp
qed simp_all

text \<open>
  Claim C8, as amended. A \<^verbatim>\<open>camera-sync\<close> frame is relayed and nothing else: one
  broadcast, to the open connections other than the sender, of a \<^verbatim>\<open>camera-sync\<close>
  message whose \<^verbatim>\<open>camera\<close> is the parsed value as \<^verbatim>\<open>JSON.stringify\<close> writes
  it. That is the value sent whenever it holds no number beyond the doubles and no
  negative zero; otherwise an infinite number arrives as \<^verbatim>\<open>null\<close> and a negative
  zero as \<^verbatim>\<open>0\<close>. The state returned is the state given (the whole session table,
  keys and fields), so a connection that joins afterwards is answered exactly as it would
  have been without the frame.
\<close>

theorem camera_sync_relays_parsed_value:
  assumes "map_of kvs ''type'' = Some (JStr ''camera-sync'')"
  shows "let b = Broadcast (JObj [(''type'', JStr ''camera-sync''),
                                  (''camera'', read_prop (JObj kvs) ''camera'')]) [sender]
         in onMessage sender (Parsed (JObj kvs)) st = (st, [b])
            \<and> recipients (connections st) b = filter (\<lambda>c. c \<noteq> sender) (connections st)
            \<and> read_prop (wire (payload b)) ''type'' = JStr ''camera-sync''
            \<and> read_prop (wire (payload b)) ''camera'' = wire (read_prop (JObj kvs) ''camera'')
            \<and> (\<forall>cam. map_of kvs ''camera'' = Some cam \<and> plain cam \<longrightarrow>
                  wire (payload b) = JObj [(''type'', JStr ''camera-sync''), (''camera'', cam)])
            \<and> onConnect num_str rnd conn (fst (onMessage sender (Parsed (JObj kvs)) st))
                = onConnect num_str rnd conn st"
proof -
  have plain_def': "cam \<noteq> JUndefined" if "plain cam" for cam
    using that by (cases cam) simp_all
  show ?thesis
    using assms
    by (auto simp add: onMessage_camera_sync on_camera_sync_def read_prop_def Let_def
        wire_plain dest: plain_def')
qed

theorem camera_sync_relays_parsed_value_witness:
  "map_of [(''type'', JStr ''camera-sync''),
           (''camera'', JObj [(''position'', JArr [JNum 1, JNum 2, JNum 3])])] ''type''
     = Some (JStr ''camera-sync'')
   \<and> plain (JObj [(''position'', JArr [JNum 1, JNum 2, JNum 3])])
   \<and> onMessage ''a''
        (Parsed (JObj [(''type'', JStr ''camera-sync''),
                       (''camera'', JObj [(''position'', JArr [JNum 1, JNum 2, JNum 3])])])) room2
      = (room2,
         [Broadcast (JObj [(''type'', JStr ''camera-sync''),
                           (''camera'', JObj [(''position'', JArr [JNum 1, JNum 2, JNum 3])])])
            [''a'']])
   \<and> wire (JObj [(''type'', JStr ''camera-sync''),
                  (''camera'', JObj [(''position'', JArr [JNum 1, JNum 2, JNum 3])])])
      = JObj [(''type'', JStr ''camera-sync''),
              (''camera'', JObj [(''position'', JArr [JNum 1, JNum 2, JNum 3])])]
   \<and> recipients (connections room2)
        (Broadcast (JObj [(''type'', JStr ''camera-sync''),
                          (''camera'', JObj [(''position'', JArr [JNum 1, JNum 2, JNum 3])])])
           [''a'']) = [''b'']"
proof -
  have h1: "map_of [(''type'', JStr ''camera-sync''),
           (''camera'', JObj [(''position'', JArr [JNum 1, JNum 2, JNum 3])])] ''type''
     = Some (JStr ''camera-sync'')"
    by simp
  have h2: "plain (JObj [(''position'', JArr [JNum 1, JNum 2, JNum 3])])"
    by simp
  show ?thesis
    using h2 camera_sync_relays_parsed_value [OF h1, of "''a''" room2]
    by (simp add: Let_def read_prop_def room2_def)
qed

text \<open>
  The claim as it was stated fails on the frame
  \<^verbatim>\<open>{"type":"camera-sync","camera":1e400}\<close>: the number parses to
  \<^verbatim>\<open>Infinity\<close>, which is what the server hands to \<^verbatim>\<open>JSON.stringify\<close>, and the
  other connections read \<^verbatim>\<open>null\<close>.
\<close>

theorem camera_infinity_relayed_as_null:
  "snd (onMessage ''a''
         (Parsed (JObj [(''type'', JStr ''camera-sync''), (''camera'', JInfinity)])) room2)
     = [Broadcast (JObj [(''type'', JStr ''camera-sync''), (''camera'', JInfinity)]) [''a'']]
   \<and> wire (JObj [(''type'', JStr ''camera-sync''), (''camera'', JInfinity)])
     = JObj [(''type'', JStr ''camera-sync''), (''camera'', JNull)]"
  by (simp add: onMessage_def try_body_def JSON_parse_def on_camera_sync_def read_prop_def)

section \<open>Rounding to a double\<close>

text \<open>
  The rounding is monotone, leaves the integers below \<^verbatim>\<open>2^53\<close> as they are, and
  is computed from any exponent that brackets its argument. The largest double below 1 is
  \<open>1 - 1 / 2 ^ 53\<close>, which keeps the hue below 360.
\<close>

lemma rne_of_int [simp]: "rne (of_int m) = m"
  by (simp add: rne_def)

lemma rne_numeral [simp]: "rne (numeral k) = numeral k"
  using rne_of_int [of "numeral k"] by simp

lemma rne_bounds: "\<lfloor>x\<rfloor> \<le> rne x \<and> rne x \<le> \<lfloor>x\<rfloor> + 1"
  by (simp add: rne_def Let_def)

lemma rne_mono: "x \<le> y \<Longrightarrow> rne x \<le> rne y"
proof (cases "\<lfloor>x\<rfloor> = \<lfloor>y\<rfloor>")
  case True
  assume "x \<le> y"
  with True show ?thesis by (auto simp add: rne_def Let_def)
next
  case False
  assume "x \<le> y"
  then have "\<lfloor>x\<rfloor> \<le> \<lfloor>y\<rfloor>" by (rule floor_mono)
  with False have "\<lfloor>x\<rfloor> + 1 \<le> \<lfloor>y\<rfloor>" by simp
  with rne_bounds [of x] rne_bounds [of y] show ?thesis by linarith
qed

lemma rne_nearest:
  assumes "of_int z - 1 / 2 < x" and "x < of_int z + 1 / 2"
  shows "rne x = z"
proof -
  from assms(2) have "x < of_int (z + 1)" by simp
  then have "\<lfloor>x\<rfloor> < z + 1" by (simp only: floor_less_iff)
  then have le: "\<lfloor>x\<rfloor> \<le> z" by simp
  from assms(1) have "of_int (z - 1) \<le> x" by simp
  then have ge: "z - 1 \<le> \<lfloor>x\<rfloor>" by (simp only: le_floor_iff)
  show ?thesis
  proof (cases "\<lfloor>x\<rfloor> = z")
    case True
    with assms(2) show ?thesis by (simp add: rne_def Let_def)
  next
    case False
    with le ge have "\<lfloor>x\<rfloor> = z - 1" by simp
    with assms(1) show ?thesis by (simp add: rne_def Let_def)
  qed
qed

lemma rne_le_int: "x \<le> of_int m \<Longrightarrow> rne x \<le> m"
  using rne_mono [of x "of_int m"] by simp

lemma rne_ge_int: "of_int m \<le> x \<Longrightarrow> m \<le> rne x"
  using rne_mono [of "of_int m" x] by simp

lemma halvings_spec:
  "1 \<le> x \<Longrightarrow> x < 2 ^ Suc n \<Longrightarrow>
   2 ^ halvings n x \<le> x \<and> x < 2 ^ Suc (halvings n x) \<and> halvings n x \<le> n"
proof (induction n arbitrary: x)
  case 0
  then show ?case by simp
next
  case (Suc n)
  show ?case
  proof (cases "x < 2")
    case True
    with Suc.prems show ?thesis by simp
  next
    case False
    with Suc.prems have "1 \<le> x / 2" and "x / 2 < 2 ^ Suc n" by simp_all
    then have "2 ^ halvings n (x / 2) \<le> x / 2 \<and> x / 2 < 2 ^ Suc (halvings n (x / 2))
               \<and> halvings n (x / 2) \<le> n"
      by (rule Suc.IH)
    with False show ?thesis by simp
  qed
qed

lemma doublings_spec:
  "0 < x \<Longrightarrow> x < 2 \<Longrightarrow>
   doublings n x \<le> n \<and> x * 2 ^ doublings n x < 2
   \<and> (1 \<le> x * 2 ^ doublings n x \<or> doublings n x = n)"
proof (induction n arbitrary: x)
  case 0
  then show ?case by simp
next
  case (Suc n)
  show ?case
  proof (cases "1 \<le> x")
    case True
    with Suc.prems show ?thesis by simp
  next
    case False
    with Suc.prems have "0 < x * 2" and "x * 2 < 2" by simp_all
    then have "doublings n (x * 2) \<le> n \<and> x * 2 * 2 ^ doublings n (x * 2) < 2
       \<and> (1 \<le> x * 2 * 2 ^ doublings n (x * 2) \<or> doublings n (x * 2) = n)"
      by (rule Suc.IH)
    with False show ?thesis by (simp add: mult.assoc)
  qed
qed

lemma exponent_range:
  assumes "0 < x" and "x < 2 ^ 1024"
  shows "- 1022 \<le> exponent x \<and> exponent x \<le> 1023"
proof (cases "1 \<le> x")
  case True
  with assms halvings_spec [of x 1023] show ?thesis by (simp add: exponent_def)
next
  case False
  with assms doublings_spec [of x 1022] show ?thesis by (simp add: exponent_def)
qed

lemma exponent_upper:
  assumes "0 < x" and "x < 2 ^ 1024"
  shows "x < 2 powi (exponent x + 1)"
proof (cases "1 \<le> x")
  case True
  with assms halvings_spec [of x 1023]
  have "x < 2 ^ Suc (halvings 1023 x)" by simp
  also have "(2::rat) ^ Suc (halvings 1023 x) = 2 powi (int (halvings 1023 x) + 1)"
    by (simp add: power_int_add)
  finally show ?thesis using True by (simp add: exponent_def)
next
  case False
  define k where "k = doublings 1022 x"
  from False assms doublings_spec [of x 1022] have "x * 2 ^ k < 2"
    by (simp add: k_def)
  then have "x < 2 / 2 ^ k"
    by (simp add: field_simps)
  also have "(2::rat) / 2 ^ k = 2 powi (- int k + 1)"
    by (simp add: power_int_diff)
  finally show ?thesis using False by (simp add: exponent_def k_def)
qed

lemma exponent_lower:
  assumes "0 < x" and "x < 2 ^ 1024"
  shows "2 powi exponent x \<le> x \<or> exponent x = - 1022"
proof (cases "1 \<le> x")
  case True
  with assms halvings_spec [of x 1023] show ?thesis by (simp add: exponent_def)
next
  case False
  define k where "k = doublings 1022 x"
  from False assms doublings_spec [of x 1022] have "1 \<le> x * 2 ^ k \<or> k = 1022"
    by (simp add: k_def)
  then show ?thesis
  proof
    assume "1 \<le> x * 2 ^ k"
    then have "1 / 2 ^ k \<le> x" by (simp add: field_simps)
    moreover have "(1::rat) / 2 ^ k = 2 powi (- int k)"
      by (simp add: power_int_minus field_simps)
    ultimately show ?thesis using False by (simp add: exponent_def k_def)
  next
    assume "k = 1022"
    with False show ?thesis by (simp add: exponent_def k_def)
  qed
qed

lemma pow2_less_D: "(2::rat) powi a < 2 powi b \<Longrightarrow> a < b"
proof (rule ccontr)
  assume l: "(2::rat) powi a < 2 powi b" and "\<not> a < b"
  then have "b \<le> a" by simp
  then have "(2::rat) powi b \<le> 2 powi a"
    by (rule power_int_increasing) simp
  with l show False by simp
qed

lemma exponent_eq:
  assumes "2 powi e \<le> x" and "x < 2 powi (e + 1)" and "- 1022 \<le> e" and "e \<le> 1023"
  shows "exponent x = e"
proof -
  have pos: "0 < x"
    using assms(1) by (rule less_le_trans [rotated]) simp
  have "(2::rat) powi (e + 1) \<le> 2 powi 1024"
    using assms(4) by (intro power_int_increasing) simp_all
  with assms(2) have big: "x < 2 ^ 1024" by simp
  from exponent_upper [OF pos big] assms(1) have "(2::rat) powi e < 2 powi (exponent x + 1)"
    by simp
  then have "e < exponent x + 1" by (rule pow2_less_D)
  then have a: "e \<le> exponent x" by simp
  from exponent_lower [OF pos big] have b: "exponent x \<le> e"
  proof
    assume "2 powi exponent x \<le> x"
    with assms(2) have "(2::rat) powi exponent x < 2 powi (e + 1)" by simp
    then have "exponent x < e + 1" by (rule pow2_less_D)
    then show ?thesis by simp
  next
    assume "exponent x = - 1022"
    with assms(3) show ?thesis by simp
  qed
  from a b show ?thesis by simp
qed

lemma fl_pos:
  "0 < x \<Longrightarrow> fl x = ulp x * of_int (rne (x / ulp x))"
  by (simp add: fl_def)

lemma ulp_pos [simp]: "0 < ulp x"
  by (simp add: ulp_def)

lemma ulp_nonneg [simp]: "0 \<le> ulp x"
  by (simp add: ulp_def)

lemma fl_nonneg: "0 \<le> x \<Longrightarrow> 0 \<le> fl x"
proof (cases "x = 0")
  case True
  then show ?thesis by (simp add: fl_def)
next
  case False
  assume "0 \<le> x"
  with False have x: "0 < x" by simp
  then have "0 \<le> x / ulp x"
    by (intro divide_nonneg_nonneg) (simp_all add: less_imp_le)
  then have "of_int 0 \<le> x / ulp x" by simp
  then have "0 \<le> rne (x / ulp x)" by (rule rne_ge_int)
  with x show ?thesis by (simp add: fl_pos)
qed

lemma fl_le_next_power:
  assumes "0 < x" and "x < 2 ^ 1024"
  shows "fl x \<le> 2 powi (exponent x + 1)"
proof -
  have u: "2 powi (exponent x + 1) = ulp x * 2 ^ 53"
    by (simp add: ulp_def power_int_diff power_int_add)
  from exponent_upper [OF assms] have "x < ulp x * 2 ^ 53"
    unfolding u .
  with ulp_pos [of x] have "x / ulp x < 2 ^ 53"
    by (simp add: pos_divide_less_eq mult.commute)
  then have "x / ulp x \<le> of_int (2 ^ 53)"
    by simp
  then have "rne (x / ulp x) \<le> 2 ^ 53" by (rule rne_le_int)
  then have "(of_int (rne (x / ulp x)) :: rat) \<le> of_int (2 ^ 53)"
    by (simp only: of_int_le_iff)
  then have "ulp x * of_int (rne (x / ulp x)) \<le> ulp x * 2 ^ 53"
    by simp
  with assms(1) show ?thesis by (simp add: fl_pos u)
qed

lemma fl_ge_power:
  assumes "0 < x" and "2 powi exponent x \<le> x"
  shows "2 powi exponent x \<le> fl x"
proof -
  have u: "2 powi exponent x = ulp x * 2 ^ 52"
    by (simp add: ulp_def power_int_diff)
  from assms(2) have "ulp x * 2 ^ 52 \<le> x"
    unfolding u .
  with ulp_pos [of x] have "2 ^ 52 \<le> x / ulp x"
    by (simp add: pos_le_divide_eq mult.commute)
  then have "of_int (2 ^ 52) \<le> x / ulp x"
    by simp
  then have "2 ^ 52 \<le> rne (x / ulp x)" by (rule rne_ge_int)
  then have "(of_int (2 ^ 52) :: rat) \<le> of_int (rne (x / ulp x))"
    by (simp only: of_int_le_iff)
  then have "ulp x * 2 ^ 52 \<le> ulp x * of_int (rne (x / ulp x))"
    by simp
  with assms(1) show ?thesis by (simp add: fl_pos u)
qed

lemma exponent_mono:
  assumes "0 < x" and "x \<le> y" and "y < 2 ^ 1024"
  shows "exponent x \<le> exponent y"
proof (rule ccontr)
  assume "\<not> exponent x \<le> exponent y"
  then have gt: "exponent y + 1 \<le> exponent x" by simp
  from assms have y: "0 < y" and xb: "x < 2 ^ 1024" by simp_all
  from exponent_range [OF y assms(3)] gt have "exponent x \<noteq> - 1022" by simp
  with exponent_lower [OF assms(1) xb] have "2 powi exponent x \<le> x" by simp
  also note assms(2)
  also note exponent_upper [OF y assms(3)]
  finally have "exponent x < exponent y + 1" by (rule pow2_less_D)
  with gt show False by simp
qed

lemma fl_mono:
  assumes "0 \<le> x" and "x \<le> y" and "y < 2 ^ 1024"
  shows "fl x \<le> fl y"
proof (cases "x = 0")
  case True
  with assms fl_nonneg [of y] show ?thesis by (simp add: fl_def)
next
  case False
  with assms have x: "0 < x" and y: "0 < y" and xb: "x < 2 ^ 1024" by simp_all
  show ?thesis
  proof (cases "exponent x = exponent y")
    case True
    then have u: "ulp x = ulp y" by (simp add: ulp_def)
    from assms(2) have "x / ulp y \<le> y / ulp y"
      by (simp add: divide_right_mono)
    then have "rne (x / ulp y) \<le> rne (y / ulp y)" by (rule rne_mono)
    then have "(of_int (rne (x / ulp y)) :: rat) \<le> of_int (rne (y / ulp y))"
      by (simp only: of_int_le_iff)
    then have "ulp y * of_int (rne (x / ulp y)) \<le> ulp y * of_int (rne (y / ulp y))"
      by simp
    with x y u show ?thesis by (simp add: fl_pos)
  next
    case False
    with exponent_mono [OF x assms(2) assms(3)] have lt: "exponent x + 1 \<le> exponent y"
      by simp
    from exponent_range [OF x xb] lt have "exponent y \<noteq> - 1022" by simp
    with exponent_lower [OF y assms(3)] have "2 powi exponent y \<le> y" by simp
    with y have "2 powi exponent y \<le> fl y" by (rule fl_ge_power)
    moreover from lt have "(2::rat) powi (exponent x + 1) \<le> 2 powi exponent y"
      by (rule power_int_increasing) simp
    moreover note fl_le_next_power [OF x xb]
    ultimately show ?thesis by simp
  qed
qed

lemma fl_eval:
  assumes "2 powi e \<le> x" and "x < 2 powi (e + 1)" and "- 1022 \<le> e" and "e \<le> 1023"
  shows "fl x = 2 powi (e - 52) * of_int (rne (x / 2 powi (e - 52)))"
proof -
  have "0 < x"
    using assms(1) by (rule less_le_trans [rotated]) simp
  with exponent_eq [OF assms] show ?thesis by (simp add: fl_pos ulp_def)
qed

lemma fl_of_int:
  assumes "0 \<le> n" and "n < 2 ^ 53"
  shows "fl (of_int n) = of_int n"
proof (cases "n = 0")
  case True
  then show ?thesis by (simp add: fl_def)
next
  case False
  with assms have n: "1 \<le> n" by simp
  define x :: rat where "x = of_int n"
  from n have x1: "1 \<le> x" and xp: "0 < x" by (simp_all add: x_def)
  from assms(2) have "x < of_int (2 ^ 53)" unfolding x_def by (simp only: of_int_less_iff)
  then have x53: "x < 2 ^ 53" by simp
  then have xb: "x < 2 ^ 1024"
    by (rule less_le_trans) simp
  define e where "e = exponent x"
  from x1 have e0: "0 \<le> e" by (simp add: e_def exponent_def)
  from exponent_range [OF xp xb] e0 exponent_lower [OF xp xb] have "2 powi e \<le> x"
    by (auto simp add: e_def)
  with x53 have "(2::rat) powi e < 2 powi 53" by simp
  then have e53: "e < 53" by (rule pow2_less_D)
  define k where "k = nat (52 - e)"
  from e0 e53 have ke: "e - 52 = - int k" by (simp add: k_def)
  have u: "ulp x = 1 / 2 ^ k"
    by (simp add: ulp_def e_def [symmetric] ke power_int_minus field_simps)
  have "x / ulp x = x * 2 ^ k"
    by (simp add: u)
  also have "\<dots> = of_int (n * 2 ^ k)"
    by (simp add: x_def)
  finally have r: "rne (x / ulp x) = n * 2 ^ k" by (simp only: rne_of_int)
  have "ulp x * of_int (rne (x / ulp x)) = ulp x * of_int (n * 2 ^ k)"
    by (simp only: r)
  also have "\<dots> = (1 / 2 ^ k) * (x * 2 ^ k)"
    by (simp only: u [unfolded x_def] x_def of_int_mult of_int_power of_int_numeral)
  also have "\<dots> = x"
    by simp
  finally have "fl x = x"
    using xp by (simp add: fl_pos)
  then show ?thesis by (simp add: x_def)
qed

lemma fl_numeral [simp]:
  "numeral k < (2::int) ^ 53 \<Longrightarrow> fl (numeral k) = numeral k"
  using fl_of_int [of "numeral k"] by simp

lemma fl_0 [simp]: "fl 0 = 0"
  by (simp add: fl_def)

lemma fl_half: "fl (1 / 2) = 1 / 2"
  using fl_eval [of "- 1" "1 / 2"] by (simp add: power_int_minus)

lemma double_below_one:
  assumes "fl r = r" and "0 \<le> r" and "r < 1"
  shows "r \<le> 1 - 1 / 2 ^ 53"
proof (cases "r < 1 / 2")
  case True
  then show ?thesis by simp
next
  case False
  with assms(3) have "2 powi (- 1) \<le> r" and "r < 2 powi (- 1 + 1)"
    by (simp_all add: power_int_minus)
  then have "fl r = 2 powi (- 1 - 52) * of_int (rne (r / 2 powi (- 1 - 52)))"
    by (rule fl_eval) simp_all
  with assms(1) have r: "r = of_int (rne (r * 2 ^ 53)) / 2 ^ 53"
    by (simp add: power_int_minus field_simps)
  define k where "k = rne (r * 2 ^ 53)"
  from r have rk: "r = of_int k / 2 ^ 53" by (simp add: k_def)
  with assms(3) have "(of_int k :: rat) < of_int (2 ^ 53)" by (simp add: field_simps)
  then have "k < 2 ^ 53" by (simp only: of_int_less_iff)
  then have "k \<le> 2 ^ 53 - 1" by simp
  then have "(of_int k :: rat) \<le> of_int (2 ^ 53 - 1)" by (simp only: of_int_le_iff)
  then show ?thesis by (simp add: rk field_simps)
qed

lemma fl_below_360: "fl (360 - 360 / 2 ^ 53) = 360 - 1 / 2 ^ 44"
proof -
  have "rne ((360 - 360 / 2 ^ 53) / 2 powi (8 - 52)) = 360 * 2 ^ 44 - 1"
    by (rule rne_nearest) (simp_all add: power_int_minus)
  with fl_eval [of 8 "360 - 360 / 2 ^ 53"] show ?thesis
    by (simp add: power_int_minus)
qed

lemma fl_top_draw: "fl top_draw = top_draw"
proof -
  have "rne (top_draw / 2 powi (- 1 - 52)) = 2 ^ 53 - 1"
    by (rule rne_nearest) (simp_all add: top_draw_def power_int_minus)
  with fl_eval [of "- 1" top_draw] show ?thesis
    by (simp add: top_draw_def power_int_minus)
qed

lemma hue_bounds:
  assumes "fl r = r" and "0 \<le> r" and "r < 1"
  shows "0 \<le> \<lfloor>fl (r * 360)\<rfloor> \<and> \<lfloor>fl (r * 360)\<rfloor> < 360"
proof -
  from assms have "r \<le> 1 - 1 / 2 ^ 53" by (rule double_below_one)
  then have le: "r * 360 \<le> 360 - 360 / 2 ^ 53" by simp
  from assms(2) have ge: "0 \<le> r * 360" by simp
  have "fl (r * 360) \<le> fl (360 - 360 / 2 ^ 53)"
    using ge le by (rule fl_mono) simp
  then have "fl (r * 360) \<le> 360 - 1 / 2 ^ 44" by (simp only: fl_below_360)
  then have "fl (r * 360) < 360" by simp
  moreover from ge have "0 \<le> fl (r * 360)" by (rule fl_nonneg)
  ultimately show ?thesis by (simp add: floor_less_iff)
qed

lemma scaled_bounds:
  assumes "0 \<le> r" and "r < 1" and "0 \<le> a" and "a < 2 ^ 53" and "0 \<le> b" and "a + b < 2 ^ 53"
  shows "of_int a \<le> fl (of_int a + fl (r * of_int b))
         \<and> fl (of_int a + fl (r * of_int b)) \<le> of_int (a + b)"
proof -
  define B :: rat where "B = of_int b"
  define A :: rat where "A = of_int a"
  from assms have B0: "0 \<le> B" and A0: "0 \<le> A" by (simp_all add: B_def A_def)
  from assms have "(of_int (a + b) :: rat) < of_int (2 ^ 53)" by (simp only: of_int_less_iff)
  then have AB: "A + B < 2 ^ 53" by (simp add: A_def B_def)
  have big: "(2::rat) ^ 53 \<le> 2 ^ 1024" by simp
  from assms B0 have p0: "0 \<le> r * B" and pB: "r * B \<le> B"
    by (simp_all add: mult_left_le_one_le)
  from AB A0 have "B < 2 ^ 53" by simp
  with big have Bb: "B < 2 ^ 1024" by simp
  have fB: "fl B = B"
    unfolding B_def using assms by (intro fl_of_int) simp_all
  have fA: "fl A = A"
    unfolding A_def using assms by (intro fl_of_int) simp_all
  have fAB: "fl (A + B) = A + B"
  proof -
    have "fl (of_int (a + b)) = of_int (a + b)"
      using assms by (intro fl_of_int) simp_all
    then show ?thesis by (simp add: A_def B_def)
  qed
  from p0 have q0: "0 \<le> fl (r * B)" by (rule fl_nonneg)
  from p0 pB Bb have "fl (r * B) \<le> fl B" by (rule fl_mono)
  then have qB: "fl (r * B) \<le> B" by (simp add: fB)
  from AB big have ABb: "A + B < 2 ^ 1024" by simp
  from q0 have "A \<le> A + fl (r * B)" by simp
  with A0 have "fl A \<le> fl (A + fl (r * B))"
    using qB ABb by (intro fl_mono) simp_all
  then have lo: "A \<le> fl (A + fl (r * B))" by (simp add: fA)
  from A0 q0 qB ABb have "fl (A + fl (r * B)) \<le> fl (A + B)"
    by (intro fl_mono) simp_all
  then have hi: "fl (A + fl (r * B)) \<le> A + B" by (simp add: fAB)
  from lo hi show ?thesis by (simp add: A_def B_def)
qed

lemma saturation_bounds:
  assumes "0 \<le> r" and "r < 1"
  shows "70 \<le> fl (70 + fl (r * 30)) \<and> fl (70 + fl (r * 30)) \<le> 100"
  using scaled_bounds [OF assms, of 70 30] by simp

lemma lightness_bounds:
  assumes "0 \<le> r" and "r < 1"
  shows "50 \<le> fl (50 + fl (r * 20)) \<and> fl (50 + fl (r * 20)) \<le> 70"
  using scaled_bounds [OF assms, of 50 20] by simp

section \<open>Connect\<close>

lemma loop_roster:
  "sendExistingUsers_loop conn users = concat (map (roster_entry conn) (others conn users))"
  by (induction users) (auto simp add: roster_entry_def others_def)

lemma others_update: "others conn (AList.update conn v users) = others conn users"
  by (induction users) (auto simp add: others_def)

lemma roster_entry_recipients:
  "e \<in> set (roster_entry conn entry) \<Longrightarrow> recipients conns e = [conn]"
  by (cases entry) (auto simp add: roster_entry_def split: if_splits)

lemma delivered_append:
  "delivered conns (xs @ ys) c = delivered conns xs c @ delivered conns ys c"
  by (simp add: delivered_def)

lemma delivered_roster_self:
  "delivered conns (concat (map (roster_entry conn) entries)) conn
   = map payload (concat (map (roster_entry conn) entries))"
  by (induction entries) (auto simp add: delivered_def roster_entry_def)

lemma delivered_roster_other:
  "d \<noteq> conn \<Longrightarrow> delivered conns (concat (map (roster_entry conn) entries)) d = []"
  by (induction entries) (auto simp add: delivered_def roster_entry_def)

text \<open>
  Claim C1. The effects of \<^verbatim>\<open>onConnect\<close>, in order: one roster entry for each
  session that was in the table before (in the order of the table; the
  \<^verbatim>\<open>user-joined\<close> message of the session with its id and colour, then the replay of
  its cursor when the session holds a last position and a last normal), each sent to the
  new connection alone; then the new connection's own \<^verbatim>\<open>user-joined\<close> message,
  with its id and the colour just generated and stored on its session, sent to it; then
  the broadcast of the same message, from which the new connection is excluded; the
  \<^verbatim>\<open>user-count\<close> broadcast closes the list. Seen from the receivers: the new
  connection gets the roster, then its own identity, then only the count; any other
  connection gets the join (if it is open) and the count.
\<close>

theorem connect_message_order:
  assumes "onConnect num_str rnd conn st = (st', effs)"
  shows "let own = JObj [(''type'', JStr ''user-joined''),
                         (''sessionId'', JStr conn),
                         (''color'', JStr (generateRandomColor num_str rnd))];
             roster = concat (map (roster_entry conn) (others conn (connectedUsers st)));
             conns = connections st'
         in effs = roster @ [Send conn own, Broadcast own [conn]] @ broadcastUserCount st'
            \<and> (\<forall>e \<in> set roster. recipients conns e = [conn])
            \<and> recipients conns (Send conn own) = [conn]
            \<and> recipients conns (Broadcast own [conn]) = filter (\<lambda>c. c \<noteq> conn) conns
            \<and> map_of (connectedUsers st') conn =
                Some \<lparr>color = JStr (generateRandomColor num_str rnd),
                      persistentUserId = JUndefined,
                      lastCursorPosition = JUndefined, lastCursorNormal = JUndefined\<rparr>
            \<and> delivered conns effs conn
                = map payload roster @ [own] @ delivered conns (broadcastUserCount st') conn
            \<and> (\<forall>d. d \<noteq> conn \<longrightarrow>
                  delivered conns effs d
                  = (if d \<in> set conns then [own] else [])
                    @ delivered conns (broadcastUserCount st') d)"
proof -
  define own where "own = JObj [(''type'', JStr ''user-joined''),
                         (''sessionId'', JStr conn),
                         (''color'', JStr (generateRandomColor num_str rnd))]"
  define roster where "roster = concat (map (roster_entry conn) (others conn (connectedUsers st)))"
  have only: "\<forall>e \<in> set roster. recipients (connections st') e = [conn]"
    unfolding roster_def by (auto dest: roster_entry_recipients)
  from assms have effs: "effs = roster @ [Send conn own, Broadcast own [conn]]
      @ broadcastUserCount st'"
    by (auto simp add: onConnect_def Let_def sendExistingUsers_def loop_roster others_update
        own_def roster_def)
  from assms have tbl: "map_of (connectedUsers st') conn =
                Some \<lparr>color = JStr (generateRandomColor num_str rnd),
                      persistentUserId = JUndefined,
                      lastCursorPosition = JUndefined, lastCursorNormal = JUndefined\<rparr>"
    by (auto simp add: onConnect_def Let_def AList.update_conv')
  have self: "delivered (connections st') effs conn
      = map payload roster @ [own] @ delivered (connections st') (broadcastUserCount st') conn"
    unfolding effs delivered_append
    by (simp add: roster_def delivered_roster_self) (simp add: delivered_def)
  have other: "delivered (connections st') effs d
      = (if d \<in> set (connections st') then [own] else [])
        @ delivered (connections st') (broadcastUserCount st') d" if "d \<noteq> conn" for d
    unfolding effs delivered_append
    using that by (simp add: roster_def delivered_roster_other) (simp add: delivered_def)
  show ?thesis
    unfolding Let_def own_def [symmetric] roster_def [symmetric]
    using only effs tbl self other by simp
qed

theorem connect_message_order_witness:
  "snd (onConnect no_digits (0, 0, 0) ''c'' room3) =
     [Send ''c'' (JObj [(''type'', JStr ''user-joined''), (''sessionId'', JStr ''a''),
                        (''color'', JStr ''red'')]),
      Send ''c'' (JObj [(''type'', JStr ''cursor-move''), (''sessionId'', JStr ''a''),
                        (''position'', JObj [(''x'', JNum 1), (''y'', JNum 2), (''z'', JNum 3)]),
                        (''normal'', JObj [(''x'', JNum 0), (''y'', JNum 0), (''z'', JNum 1)]),
                        (''color'', JStr ''red'')]),
      Send ''c'' (JObj [(''type'', JStr ''user-joined''), (''sessionId'', JStr ''b''),
                        (''color'', JStr ''blue'')]),
      Send ''c'' (JObj [(''type'', JStr ''user-joined''), (''sessionId'', JStr ''c''),
                        (''color'', JStr ''hsl(n, n%, n%)'')]),
      Broadcast (JObj [(''type'', JStr ''user-joined''), (''sessionId'', JStr ''c''),
                       (''color'', JStr ''hsl(n, n%, n%)'')]) [''c''],
      Broadcast (JObj [(''type'', JStr ''user-count''), (''count'', JNum 3)]) []]
   \<and> recipients (connections (fst (onConnect no_digits (0, 0, 0) ''c'' room3)))
        (Broadcast (JObj [(''type'', JStr ''user-joined''), (''sessionId'', JStr ''c''),
                          (''color'', JStr ''hsl(n, n%, n%)'')]) [''c'']) = [''a'', ''b'']"
proof -
  have h: "onConnect no_digits (0, 0, 0) ''c'' room3 =
             (fst (onConnect no_digits (0, 0, 0) ''c'' room3),
              snd (onConnect no_digits (0, 0, 0) ''c'' room3))"
    by simp
  have c: "generateRandomColor no_digits (0, 0, 0) = ''hsl(n, n%, n%)''"
    by (simp add: generateRandomColor_def no_digits_def)
  have conns: "connections (fst (onConnect no_digits (0, 0, 0) ''c'' room3)) = [''a'', ''b'', ''c'']"
    by (simp add: onConnect_def Let_def room3_def)
  have roster: "concat (map (roster_entry ''c'') (others ''c'' (connectedUsers room3))) =
     [Send ''c'' (JObj [(''type'', JStr ''user-joined''), (''sessionId'', JStr ''a''),
                        (''color'', JStr ''red'')]),
      Send ''c'' (JObj [(''type'', JStr ''cursor-move''), (''sessionId'', JStr ''a''),
                        (''position'', JObj [(''x'', JNum 1), (''y'', JNum 2), (''z'', JNum 3)]),
                        (''normal'', JObj [(''x'', JNum 0), (''y'', JNum 0), (''z'', JNum 1)]),
                        (''color'', JStr ''red'')]),
      Send ''c'' (JObj [(''type'', JStr ''user-joined''), (''sessionId'', JStr ''b''),
                        (''color'', JStr ''blue'')])]"
    by (simp add: others_def roster_entry_def room3_def)
  show ?thesis
    using connect_message_order [OF h]
    by (simp add: Let_def c conns roster broadcastUserCount_def)
qed

section \<open>Frames the server cannot read\<close>

text \<open>
  Claim C5, as amended. A frame that is not JSON, a frame that parses to \<^verbatim>\<open>null\<close>,
  and a frame whose \<^verbatim>\<open>type\<close> is none of the five handled strings are dropped: no
  effect (no broadcast, nothing to the sender), and the state, with its session table and
  its open connections, is the one given. A frame of a handled type is not checked for
  its fields: a \<^verbatim>\<open>camera-sync\<close> frame without \<^verbatim>\<open>camera\<close> is broadcast all the
  same, the missing field read as \<^verbatim>\<open>undefined\<close>.
\<close>

theorem unhandled_frames_dropped:
  "onMessage sender Malformed st = (st, [])
   \<and> onMessage sender (Parsed JNull) st = (st, [])
   \<and> (get_prop data ''type'' = Inr t
        \<and> t \<notin> {JStr ''identify'', JStr ''cursor-move'', JStr ''cursor-leave'',
                 JStr ''user-color-change'', JStr ''camera-sync''}
       \<longrightarrow> onMessage sender (Parsed data) st = (st, []))
   \<and> (map_of kvs ''type'' = Some (JStr ''camera-sync'') \<and> map_of kvs ''camera'' = None
       \<longrightarrow> onMessage sender (Parsed (JObj kvs)) st
            = (st, [Broadcast (JObj [(''type'', JStr ''camera-sync''),
                                     (''camera'', JUndefined)]) [sender]]))"
  by (auto simp add: onMessage_def try_body_def JSON_parse_def on_camera_sync_def read_prop_def)

theorem unhandled_frames_dropped_witness:
  "get_prop (JObj [(''type'', JStr ''ping'')]) ''type'' = Inr (JStr ''ping'')
   \<and> JStr ''ping'' \<notin> {JStr ''identify'', JStr ''cursor-move'', JStr ''cursor-leave'',
                         JStr ''user-color-change'', JStr ''camera-sync''}
   \<and> onMessage ''a'' (Parsed (JObj [(''type'', JStr ''ping'')])) room2 = (room2, [])
   \<and> onMessage ''a'' (Parsed (JObj [(''type'', JStr ''camera-sync'')])) room2
      = (room2, [Broadcast (JObj [(''type'', JStr ''camera-sync''),
                                  (''camera'', JUndefined)]) [''a'']])"
proof -
  have h1: "get_prop (JObj [(''type'', JStr ''ping'')]) ''type'' = Inr (JStr ''ping'')"
    by simp
  have h2: "JStr ''ping'' \<notin> {JStr ''identify'', JStr ''cursor-move'', JStr ''cursor-leave'',
                         JStr ''user-color-change'', JStr ''camera-sync''}"
    by simp
  have h3: "map_of [(''type'', JStr ''camera-sync'')] ''type'' = Some (JStr ''camera-sync'')
            \<and> map_of [(''type'', JStr ''camera-sync'')] ''camera'' = None"
    by simp
  show ?thesis
    using h1 h2 h3
      unhandled_frames_dropped [of "''a''" room2 "JObj [(''type'', JStr ''ping'')]" "JStr ''ping''"
        "[(''type'', JStr ''camera-sync'')]"]
    by simp
qed

text \<open>
  The claim as it was stated fails on an \<^verbatim>\<open>identify\<close> frame without
  \<^verbatim>\<open>persistentUserId\<close>: in the room of two sessions that have not identified
  themselves, the frame from \<open>a\<close> makes the server compare \<^verbatim>\<open>undefined\<close> with the
  \<^verbatim>\<open>undefined\<close> identity of \<open>b\<close>, remove the session of \<open>b\<close>, broadcast its
  departure and confirm to \<open>a\<close>.
\<close>

theorem missing_field_not_dropped:
  "onMessage ''a'' (Parsed (JObj [(''type'', JStr ''identify'')])) room2
   = (\<lparr>connectedUsers =
          [(''a'', \<lparr>color = JStr ''red'', persistentUserId = JUndefined,
                    lastCursorPosition = JUndefined, lastCursorNormal = JUndefined\<rparr>)],
        connections = [''a'', ''b'']\<rparr>,
      [Broadcast (JObj [(''type'', JStr ''user-disconnect''), (''sessionId'', JStr ''b'')]) [],
       Send ''a'' (JObj [(''type'', JStr ''user-identified''), (''sessionId'', JStr ''a'')])])"
  by (simp add: onMessage_def try_body_def JSON_parse_def on_identify_def read_prop_def
      room2_def cleanupOldSessions_def toRemove_def Let_def AList.delete_eq)

section \<open>Identify\<close>

lemma strict_eq_JStr: "strict_eq v (JStr p) \<longleftrightarrow> v = JStr p"
  by (cases v) auto

lemma removeSessions_eq:
  "removeSessions ids st =
     (st\<lparr>connectedUsers := filter (\<lambda>entry. fst entry \<notin> set ids) (connectedUsers st)\<rparr>,
      map (\<lambda>sid. Broadcast (JObj [(''type'', JStr ''user-disconnect''),
                                   (''sessionId'', JStr sid)]) []) ids)"
proof (induction ids arbitrary: st)
  case Nil
  show ?case by simp
next
  case (Cons sid ids)
  have "filter (\<lambda>entry. fst entry \<notin> set ids) (AList.delete sid (connectedUsers st))
        = filter (\<lambda>entry. fst entry \<notin> set (sid # ids)) (connectedUsers st)"
    by (induction "connectedUsers st") (auto simp add: AList.delete_eq intro: filter_cong)
  then show ?case
    by (simp add: Cons.IH Let_def)
qed

lemma filter_single:
  assumes "distinct (map fst al)" and "map_of al k = Some v" and "P (k, v)"
    and "\<forall>entry \<in> set al. fst entry \<noteq> k \<longrightarrow> \<not> P entry"
  shows "filter P al = [(k, v)]"
  using assms
proof (induction al)
  case Nil
  then show ?case by simp
next
  case (Cons e al)
  show ?case
  proof (cases "fst e = k")
    case True
    with Cons.prems have e: "e = (k, v)" by (cases e) auto
    from Cons.prems True have "\<forall>entry \<in> set al. fst entry \<noteq> k"
      by (auto simp add: image_iff)
    with Cons.prems have "filter P al = []"
      by (auto simp add: filter_empty_conv)
    with e Cons.prems show ?thesis by simp
  next
    case False
    with Cons.prems have "filter P al = [(k, v)]"
      by (intro Cons.IH) (auto split: if_splits)
    with False Cons.prems show ?thesis by (cases e) auto
  qed
qed

text \<open>
  Claim C4. The sender has a session and identifies itself with the string \<open>p\<close>;
  one other session holds the identity \<open>p\<close>, and no session besides these two does
  (theirs is another value or none). Then exactly that other session leaves the table,
  whose remaining keys keep their order; the sender's session stays, now holding \<open>p\<close>;
  every other session is as it was; and the effects are the \<^verbatim>\<open>user-disconnect\<close>
  broadcast with the id of the evicted session, to all open connections, followed by the
  confirmation to the sender.
\<close>

theorem identify_evicts_same_identity:
  assumes dist: "distinct (map fst (connectedUsers st))"
    and ty: "map_of kvs ''type'' = Some (JStr ''identify'')"
    and pid: "map_of kvs ''persistentUserId'' = Some (JStr p)"
    and snd: "map_of (connectedUsers st) sender = Some user"
    and oth: "map_of (connectedUsers st) other = Some old"
    and neq: "other \<noteq> sender"
    and same: "persistentUserId old = JStr p"
    and rest: "\<forall>sid u. sid \<noteq> sender \<and> sid \<noteq> other \<and> map_of (connectedUsers st) sid = Some u
                 \<longrightarrow> persistentUserId u \<noteq> JStr p"
    and res: "onMessage sender (Parsed (JObj kvs)) st = (st', effs)"
  shows "map_of (connectedUsers st') other = None
       \<and> map_of (connectedUsers st') sender = Some (user\<lparr>persistentUserId := JStr p\<rparr>)
       \<and> (\<forall>sid. sid \<noteq> sender \<and> sid \<noteq> other \<longrightarrow>
             map_of (connectedUsers st') sid = map_of (connectedUsers st) sid)
       \<and> map fst (connectedUsers st') = filter (\<lambda>sid. sid \<noteq> other) (map fst (connectedUsers st))
       \<and> effs = [Broadcast (JObj [(''type'', JStr ''user-disconnect''),
                                  (''sessionId'', JStr other)]) [],
                 Send sender (JObj [(''type'', JStr ''user-identified''),
                                    (''sessionId'', JStr sender)])]
       \<and> recipients (connections st')
            (Broadcast (JObj [(''type'', JStr ''user-disconnect''),
                              (''sessionId'', JStr other)]) []) = connections st'"
proof -
  define al where "al = AList.update sender (user\<lparr>persistentUserId := JStr p\<rparr>) (connectedUsers st)"
  define P where "P = (\<lambda>entry :: string \<times> session.
      case entry of (sessionId, u) \<Rightarrow> strict_eq (persistentUserId u) (JStr p) \<and> sessionId \<noteq> sender)"
  have d: "distinct (map fst al)"
    unfolding al_def using dist by (rule AList.distinct_update)
  have o: "map_of al other = Some old"
    unfolding al_def using oth neq by (simp add: AList.update_conv')
  have Po: "P (other, old)"
    unfolding P_def using same neq by (simp add: strict_eq_JStr)
  have nP: "\<forall>entry \<in> set al. fst entry \<noteq> other \<longrightarrow> \<not> P entry"
  proof (intro ballI impI)
    fix entry assume e: "entry \<in> set al" and ne: "fst entry \<noteq> other"
    obtain sid u where su: "entry = (sid, u)" by (cases entry)
    show "\<not> P entry"
    proof (cases "sid = sender")
      case True
      then show ?thesis by (simp add: P_def su)
    next
      case False
      from e su d have "map_of al sid = Some u" by simp
      with False have "map_of (connectedUsers st) sid = Some u"
        by (simp add: al_def AList.update_conv')
      with rest False ne su have "persistentUserId u \<noteq> JStr p" by auto
      then show ?thesis by (simp add: P_def su strict_eq_JStr)
    qed
  qed
  have f: "filter P al = [(other, old)]"
    using d o Po nP by (rule filter_single)
  have tr: "toRemove (JStr p) sender (st\<lparr>connectedUsers := al\<rparr>) = [other]"
    using f by (simp add: toRemove_def P_def)
  have r: "(st', effs) =
      (st\<lparr>connectedUsers := AList.delete other al\<rparr>,
       [Broadcast (JObj [(''type'', JStr ''user-disconnect''), (''sessionId'', JStr other)]) [],
        Send sender (JObj [(''type'', JStr ''user-identified''), (''sessionId'', JStr sender)])])"
    using res ty pid snd tr
    by (simp add: onMessage_identify on_identify_def read_prop_def Let_def
        cleanupOldSessions_def al_def [symmetric])
  have keys: "map fst (AList.delete other al) = filter (\<lambda>sid. sid \<noteq> other) (map fst (connectedUsers st))"
  proof -
    from snd have "sender \<in> fst ` set (connectedUsers st)"
      by (force dest: map_of_SomeD)
    then have "map fst al = map fst (connectedUsers st)"
      by (simp add: al_def AList.update_keys)
    then show ?thesis
      by (simp add: AList.delete_keys removeAll_filter_not_eq cong: filter_cong) (metis)
  qed
  from r keys show ?thesis
    using neq by (auto simp add: AList.delete_conv' al_def AList.update_conv')
qed

theorem identify_evicts_same_identity_witness:
  "distinct (map fst (connectedUsers room3))
   \<and> map_of (connectedUsers room3) ''a'' =
       Some \<lparr>color = JStr ''red'', persistentUserId = JStr ''u1'',
             lastCursorPosition = JObj [(''x'', JNum 1), (''y'', JNum 2), (''z'', JNum 3)],
             lastCursorNormal = JObj [(''x'', JNum 0), (''y'', JNum 0), (''z'', JNum 1)]\<rparr>
   \<and> map_of (connectedUsers room3) ''b'' =
       Some \<lparr>color = JStr ''blue'', persistentUserId = JUndefined,
             lastCursorPosition = JUndefined, lastCursorNormal = JUndefined\<rparr>
   \<and> map_of (connectedUsers (fst (onMessage ''b''
        (Parsed (JObj [(''type'', JStr ''identify''), (''persistentUserId'', JStr ''u1'')]))
        room3))) ''a'' = None
   \<and> map_of (connectedUsers (fst (onMessage ''b''
        (Parsed (JObj [(''type'', JStr ''identify''), (''persistentUserId'', JStr ''u1'')]))
        room3))) ''b'' =
       Some \<lparr>color = JStr ''blue'', persistentUserId = JStr ''u1'',
             lastCursorPosition = JUndefined, lastCursorNormal = JUndefined\<rparr>
   \<and> snd (onMessage ''b''
        (Parsed (JObj [(''type'', JStr ''identify''), (''persistentUserId'', JStr ''u1'')]))
        room3) =
       [Broadcast (JObj [(''type'', JStr ''user-disconnect''), (''sessionId'', JStr ''a'')]) [],
        Send ''b'' (JObj [(''type'', JStr ''user-identified''), (''sessionId'', JStr ''b'')])]"
proof -
  define kvs where "kvs = [(''type'', JStr ''identify''), (''persistentUserId'', JStr ''u1'')]"
  define user where "user = \<lparr>color = JStr ''blue'', persistentUserId = JUndefined,
                        lastCursorPosition = JUndefined, lastCursorNormal = JUndefined\<rparr>"
  define old where "old = \<lparr>color = JStr ''red'', persistentUserId = JStr ''u1'',
             lastCursorPosition = JObj [(''x'', JNum 1), (''y'', JNum 2), (''z'', JNum 3)],
             lastCursorNormal = JObj [(''x'', JNum 0), (''y'', JNum 0), (''z'', JNum 1)]\<rparr>"
  have h1: "distinct (map fst (connectedUsers room3))" by (simp add: room3_def)
  have h2: "map_of kvs ''type'' = Some (JStr ''identify'')" by (simp add: kvs_def)
  have h3: "map_of kvs ''persistentUserId'' = Some (JStr ''u1'')" by (simp add: kvs_def)
  have h4: "map_of (connectedUsers room3) ''b'' = Some user" by (simp add: room3_def user_def)
  have h5: "map_of (connectedUsers room3) ''a'' = Some old" by (simp add: room3_def old_def)
  have h6: "''a'' \<noteq> ''b''" by simp
  have h7: "persistentUserId old = JStr ''u1''" by (simp add: old_def)
  have h8: "\<forall>sid u. sid \<noteq> ''b'' \<and> sid \<noteq> ''a'' \<and> map_of (connectedUsers room3) sid = Some u
                 \<longrightarrow> persistentUserId u \<noteq> JStr ''u1''"
    by (simp add: room3_def)
  have h9: "onMessage ''b'' (Parsed (JObj kvs)) room3
     = (fst (onMessage ''b'' (Parsed (JObj kvs)) room3), snd (onMessage ''b'' (Parsed (JObj kvs)) room3))"
    by simp
  note inst = identify_evicts_same_identity [OF h1 h2 h3 h4 h5 h6 h7 h8 h9]
  have u: "user\<lparr>persistentUserId := JStr ''u1''\<rparr> =
       \<lparr>color = JStr ''blue'', persistentUserId = JStr ''u1'',
             lastCursorPosition = JUndefined, lastCursorNormal = JUndefined\<rparr>"
    by (simp add: user_def)
  from inst [unfolded u] have
    "map_of (connectedUsers (fst (onMessage ''b'' (Parsed (JObj kvs)) room3))) ''a'' = None
     \<and> map_of (connectedUsers (fst (onMessage ''b'' (Parsed (JObj kvs)) room3))) ''b'' =
         Some \<lparr>color = JStr ''blue'', persistentUserId = JStr ''u1'',
             lastCursorPosition = JUndefined, lastCursorNormal = JUndefined\<rparr>
     \<and> snd (onMessage ''b'' (Parsed (JObj kvs)) room3) =
       [Broadcast (JObj [(''type'', JStr ''user-disconnect''), (''sessionId'', JStr ''a'')]) [],
        Send ''b'' (JObj [(''type'', JStr ''user-identified''), (''sessionId'', JStr ''b'')])]"
    by blast
  with h1 h4 h5 show ?thesis
    unfolding kvs_def old_def user_def by blast
qed

section \<open>Eviction and the open connections\<close>

lemma removeSessions_connections:
  "connections (fst (removeSessions ids st)) = connections st"
  by (simp add: removeSessions_eq)

lemma removeSessions_no_count:
  "e \<in> set (snd (removeSessions ids st)) \<Longrightarrow> \<not> is_user_count e"
  by (auto simp add: removeSessions_eq is_user_count_def read_prop_def)

lemma on_identify_connections:
  "connections (fst (on_identify sender data st)) = connections st"
  by (simp add: on_identify_def Let_def cleanupOldSessions_def removeSessions_eq
      split: option.splits)

lemma on_identify_no_count:
  "e \<in> set (snd (on_identify sender data st)) \<Longrightarrow> \<not> is_user_count e"
  by (auto simp add: on_identify_def Let_def cleanupOldSessions_def removeSessions_eq
      is_user_count_def read_prop_def split: option.splits)

lemma onMessage_disj:
  "onMessage c m st = (st, [])
   \<or> (\<exists>data. onMessage c m st = on_identify c data st)
   \<or> (\<exists>data. onMessage c m st = on_cursor_move c data st)
   \<or> (\<exists>data. onMessage c m st = on_cursor_leave c data st)
   \<or> (\<exists>data. onMessage c m st = on_user_color_change c data st)
   \<or> (\<exists>data. onMessage c m st = on_camera_sync c data st)"
proof (cases m)
  case Malformed
  then show ?thesis by (simp add: onMessage_Malformed)
next
  case (Parsed data)
  show ?thesis
  proof (cases "get_prop data ''type''")
    case (Inl e)
    with Parsed show ?thesis
      by (simp add: onMessage_def try_body_def JSON_parse_def)
  next
    case (Inr t)
    with Parsed have "onMessage c m st =
       (if t = JStr ''identify'' then on_identify c data st
        else if t = JStr ''cursor-move'' then on_cursor_move c data st
        else if t = JStr ''cursor-leave'' then on_cursor_leave c data st
        else if t = JStr ''user-color-change'' then on_user_color_change c data st
        else if t = JStr ''camera-sync'' then on_camera_sync c data st
        else (st, []))"
      by (simp add: onMessage_def try_body_def JSON_parse_def)
    then show ?thesis
      by (metis (full_types))
  qed
qed

lemma onMessage_cases:
  obtains (dropped) "onMessage c m st = (st, [])"
  | (identify) data where "onMessage c m st = on_identify c data st"
  | (cursor_move) data where "onMessage c m st = on_cursor_move c data st"
  | (cursor_leave) data where "onMessage c m st = on_cursor_leave c data st"
  | (color_change) data where "onMessage c m st = on_user_color_change c data st"
  | (camera_sync) data where "onMessage c m st = on_camera_sync c data st"
  using onMessage_disj [of c m st] by blast

lemma onMessage_connections:
  "connections (fst (onMessage c m st)) = connections st"
  by (cases rule: onMessage_cases [of c m st])
     (simp_all add: on_identify_connections on_cursor_move_def on_cursor_leave_def
        on_user_color_change_def on_camera_sync_def split: option.splits)

lemma onMessage_no_count:
  "e \<in> set (snd (onMessage c m st)) \<Longrightarrow> \<not> is_user_count e"
  by (cases rule: onMessage_cases [of c m st])
     (auto simp add: on_cursor_move_def on_cursor_leave_def
        on_user_color_change_def on_camera_sync_def is_user_count_def read_prop_def
        dest: on_identify_no_count [unfolded is_user_count_def read_prop_def]
        split: option.splits)

lemma toRemove_update:
  assumes "map_of al k \<noteq> None"
  shows "filter (\<lambda>(sid, u). Q u \<and> sid \<noteq> k) (AList.update k v al)
         = filter (\<lambda>(sid, u). Q u \<and> sid \<noteq> k) al"
  using assms by (induction al) auto

lemma map_of_filter_out:
  "k \<in> S \<Longrightarrow> map_of (filter (\<lambda>entry. fst entry \<notin> S) al) k = None"
  by (induction al) auto

lemma on_identify_registered:
  assumes "map_of (connectedUsers st) sender = Some user"
  shows "on_identify sender data st =
      (st\<lparr>connectedUsers :=
           filter (\<lambda>entry. fst entry \<notin> set (toRemove (read_prop data ''persistentUserId'') sender st))
             (AList.update sender (user\<lparr>persistentUserId := read_prop data ''persistentUserId''\<rparr>)
                (connectedUsers st))\<rparr>,
       map (\<lambda>sid. Broadcast (JObj [(''type'', JStr ''user-disconnect''),
                                    (''sessionId'', JStr sid)]) [])
           (toRemove (read_prop data ''persistentUserId'') sender st)
       @ [Send sender (JObj [(''type'', JStr ''user-identified''),
                             (''sessionId'', JStr sender)])])"
proof -
  have "toRemove (read_prop data ''persistentUserId'') sender
          (st\<lparr>connectedUsers :=
                AList.update sender (user\<lparr>persistentUserId := read_prop data ''persistentUserId''\<rparr>)
                  (connectedUsers st)\<rparr>)
        = toRemove (read_prop data ''persistentUserId'') sender st"
    using assms by (simp add: toRemove_def toRemove_update)
  with assms show ?thesis
    by (simp add: on_identify_def Let_def cleanupOldSessions_def removeSessions_eq)
qed

text \<open>
  The keys of the table are distinct in every state the server reaches, as those of a
  Map are.
\<close>

lemma onMessage_distinct:
  assumes "distinct (map fst (connectedUsers st))"
  shows "distinct (map fst (connectedUsers (fst (onMessage c m st))))"
proof (cases rule: onMessage_cases [of c m st])
  case dropped
  with assms show ?thesis by simp
next
  case (identify data)
  show ?thesis
  proof (cases "map_of (connectedUsers st) c")
    case None
    with identify assms show ?thesis by (simp add: on_identify_def)
  next
    case (Some user)
    from identify assms show ?thesis
      unfolding on_identify_registered [OF Some]
      by (simp add: AList.distinct_update distinct_map_filter)
  qed
next
  case (cursor_move data)
  with assms show ?thesis
    by (simp add: on_cursor_move_def AList.distinct_update split: option.splits)
next
  case (cursor_leave data)
  with assms show ?thesis by (simp add: on_cursor_leave_def)
next
  case (color_change data)
  with assms show ?thesis
    by (simp add: on_user_color_change_def AList.distinct_update split: option.splits)
next
  case (camera_sync data)
  with assms show ?thesis by (simp add: on_camera_sync_def)
qed

lemma step_distinct:
  assumes "distinct (map fst (connectedUsers st))"
  shows "distinct (map fst (connectedUsers (fst (step num_str st ev))))"
proof (cases ev)
  case (Connect c rnd)
  with assms show ?thesis
    by (simp add: onConnect_def Let_def AList.distinct_update)
next
  case (Message c m)
  with assms show ?thesis by (simp add: onMessage_distinct)
next
  case (Close c)
  with assms show ?thesis
    by (simp add: onClose_def Let_def AList.distinct_delete)
qed

lemma final_distinct:
  "distinct (map fst (connectedUsers st)) \<Longrightarrow>
   distinct (map fst (connectedUsers (final num_str st evs)))"
  by (induction evs arbitrary: st) (simp_all add: step_distinct)

lemma reachable_distinct:
  "distinct (map fst (connectedUsers (final num_str initial evs)))"
  by (rule final_distinct) (simp add: initial_def)

text \<open>
  Claim C10. An \<^verbatim>\<open>identify\<close> frame from a registered sender evicts the sessions
  that \<^verbatim>\<open>cleanupOldSessions\<close> collects: their entries leave the table and one
  \<^verbatim>\<open>user-disconnect\<close> broadcast is issued for each, followed by the confirmation
  to the sender. No effect of the handler is a \<^verbatim>\<open>user-count\<close> broadcast, and the
  open connections are the same after as before, so an evicted session's connection that
  was open is still open. Consequently the open connections can strictly contain the keys
  of the table: after the run in which \<open>a\<close> and \<open>b\<close> connect and identify
  themselves with the same id, the table holds \<open>b\<close> alone while \<open>a\<close> and
  \<open>b\<close> are open.
\<close>

theorem eviction_keeps_connection_open:
  "(map_of kvs ''type'' = Some (JStr ''identify'')
      \<and> map_of (connectedUsers st) sender = Some user
      \<and> onMessage sender (Parsed (JObj kvs)) st = (st', effs)
    \<longrightarrow> (let evicted = toRemove (read_prop (JObj kvs) ''persistentUserId'') sender st
         in effs = map (\<lambda>sid. Broadcast (JObj [(''type'', JStr ''user-disconnect''),
                                                (''sessionId'', JStr sid)]) []) evicted
                   @ [Send sender (JObj [(''type'', JStr ''user-identified''),
                                         (''sessionId'', JStr sender)])]
            \<and> (\<forall>e \<in> set effs. \<not> is_user_count e)
            \<and> connections st' = connections st
            \<and> (\<forall>sid \<in> set evicted.
                  map_of (connectedUsers st') sid = None
                  \<and> (sid \<in> set (connections st) \<longrightarrow> sid \<in> set (connections st')))))
   \<and> all_enabled num_str initial eviction_run
   \<and> map fst (connectedUsers (final num_str initial eviction_run)) = [''b'']
   \<and> connections (final num_str initial eviction_run) = [''a'', ''b'']
   \<and> set (map fst (connectedUsers (final num_str initial eviction_run)))
       \<subset> set (connections (final num_str initial eviction_run))"
proof -
  have general: "let evicted = toRemove (read_prop (JObj kvs) ''persistentUserId'') sender st
         in effs = map (\<lambda>sid. Broadcast (JObj [(''type'', JStr ''user-disconnect''),
                                                (''sessionId'', JStr sid)]) []) evicted
                   @ [Send sender (JObj [(''type'', JStr ''user-identified''),
                                         (''sessionId'', JStr sender)])]
            \<and> (\<forall>e \<in> set effs. \<not> is_user_count e)
            \<and> connections st' = connections st
            \<and> (\<forall>sid \<in> set evicted.
                  map_of (connectedUsers st') sid = None
                  \<and> (sid \<in> set (connections st) \<longrightarrow> sid \<in> set (connections st')))"
    if ty: "map_of kvs ''type'' = Some (JStr ''identify'')"
      and reg: "map_of (connectedUsers st) sender = Some user"
      and res: "onMessage sender (Parsed (JObj kvs)) st = (st', effs)"
  proof -
    from res ty have r: "on_identify sender (JObj kvs) st = (st', effs)"
      by (simp add: onMessage_identify)
    from res have nc: "\<forall>e \<in> set effs. \<not> is_user_count e"
      using onMessage_no_count [of _ sender "Parsed (JObj kvs)" st] by auto
    from res have cs: "connections st' = connections st"
      using onMessage_connections [of sender "Parsed (JObj kvs)" st] by simp
    from r show ?thesis
      unfolding Let_def on_identify_registered [OF reg]
      using nc cs by (auto simp add: map_of_filter_out)
  qed
  have st4: "final num_str initial eviction_run =
    \<lparr>connectedUsers =
       [(''b'', \<lparr>color = JStr (generateRandomColor num_str (0, 0, 0)),
                 persistentUserId = JStr ''u1'',
                 lastCursorPosition = JUndefined, lastCursorNormal = JUndefined\<rparr>)],
     connections = [''a'', ''b'']\<rparr>"
    by (simp add: eviction_run_def initial_def onConnect_def Let_def
        onMessage_def try_body_def JSON_parse_def on_identify_def read_prop_def
        cleanupOldSessions_def toRemove_def AList.delete_eq)
  have en: "all_enabled num_str initial eviction_run"
    by (simp add: eviction_run_def initial_def onConnect_def Let_def
        onMessage_def try_body_def JSON_parse_def on_identify_def read_prop_def
        cleanupOldSessions_def toRemove_def AList.delete_eq)
  show ?thesis
    using general en by (auto simp add: st4)
qed

theorem eviction_keeps_connection_open_witness:
  "map_of [(''type'', JStr ''identify''), (''persistentUserId'', JStr ''u1'')] ''type''
     = Some (JStr ''identify'')
   \<and> map_of (connectedUsers room3) ''b'' =
       Some \<lparr>color = JStr ''blue'', persistentUserId = JUndefined,
             lastCursorPosition = JUndefined, lastCursorNormal = JUndefined\<rparr>
   \<and> toRemove (JStr ''u1'') ''b'' room3 = [''a'']
   \<and> map_of (connectedUsers (fst (onMessage ''b''
        (Parsed (JObj [(''type'', JStr ''identify''), (''persistentUserId'', JStr ''u1'')]))
        room3))) ''a'' = None
   \<and> ''a'' \<in> set (connections (fst (onMessage ''b''
        (Parsed (JObj [(''type'', JStr ''identify''), (''persistentUserId'', JStr ''u1'')]))
        room3)))"
proof -
  define kvs where "kvs = [(''type'', JStr ''identify''), (''persistentUserId'', JStr ''u1'')]"
  define r where "r = onMessage ''b'' (Parsed (JObj kvs)) room3"
  have h1: "map_of kvs ''type'' = Some (JStr ''identify'')" by (simp add: kvs_def)
  have h2: "map_of (connectedUsers room3) ''b'' =
       Some \<lparr>color = JStr ''blue'', persistentUserId = JUndefined,
             lastCursorPosition = JUndefined, lastCursorNormal = JUndefined\<rparr>"
    by (simp add: room3_def)
  have h3: "onMessage ''b'' (Parsed (JObj kvs)) room3 = (fst r, snd r)"
    by (simp add: r_def)
  have ev: "toRemove (read_prop (JObj kvs) ''persistentUserId'') ''b'' room3 = [''a'']"
    by (simp add: toRemove_def read_prop_def kvs_def room3_def)
  have p: "read_prop (JObj kvs) ''persistentUserId'' = JStr ''u1''"
    by (simp add: read_prop_def kvs_def)
  have a: "''a'' \<in> set (connections room3)" by (simp add: room3_def)
  from eviction_keeps_connection_open [of kvs room3 "''b''" _ "fst r" "snd r"] h1 h2 h3
  have "\<forall>sid \<in> set (toRemove (read_prop (JObj kvs) ''persistentUserId'') ''b'' room3).
          map_of (connectedUsers (fst r)) sid = None
          \<and> (sid \<in> set (connections room3) \<longrightarrow> sid \<in> set (connections (fst r)))"
    unfolding Let_def by blast
  with ev a have "map_of (connectedUsers (fst r)) ''a'' = None
                  \<and> ''a'' \<in> set (connections (fst r))"
    by simp
  with h1 h2 ev p show ?thesis
    unfolding r_def kvs_def by simp
qed

section \<open>The user count\<close>

lemma loop_no_count:
  "e \<in> set (sendExistingUsers_loop conn users) \<Longrightarrow> \<not> is_user_count e"
  by (induction users) (auto simp add: is_user_count_def read_prop_def split: if_splits)

lemma broadcastUserCount_count:
  "e \<in> set (broadcastUserCount st) \<Longrightarrow> count_of e = JNum (of_nat (length (connections st)))"
  by (simp add: broadcastUserCount_def count_of_def read_prop_def)

lemma step_user_count:
  assumes "e \<in> set (snd (step num_str st ev))" and "is_user_count e"
  shows "count_of e = JNum (of_nat (length (connections (fst (step num_str st ev)))))"
proof (cases ev)
  case (Connect c rnd)
  with assms show ?thesis
    by (auto simp add: onConnect_def Let_def sendExistingUsers_def
        is_user_count_def read_prop_def
        dest: loop_no_count [unfolded is_user_count_def read_prop_def]
              broadcastUserCount_count)
next
  case (Message c m)
  with assms show ?thesis
    by (auto dest: onMessage_no_count)
next
  case (Close c)
  with assms show ?thesis
    by (auto simp add: onClose_def Let_def is_user_count_def read_prop_def
        dest: broadcastUserCount_count)
qed

lemma run_Cons:
  "run num_str st (ev # evs) = step num_str st ev # run num_str (fst (step num_str st ev)) evs"
  by (cases "step num_str st ev") simp

lemma run_user_count:
  "(st', effs) \<in> set (run num_str st evs) \<Longrightarrow> e \<in> set effs \<Longrightarrow> is_user_count e \<Longrightarrow>
   count_of e = JNum (of_nat (length (connections st')))"
proof (induction evs arbitrary: st)
  case Nil
  then show ?case by simp
next
  case (Cons ev evs)
  show ?case
  proof (cases "(st', effs) = step num_str st ev")
    case True
    with Cons.prems step_user_count [of e num_str st ev] show ?thesis
      by (metis fst_conv snd_conv)
  next
    case False
    with Cons.prems have "(st', effs) \<in> set (run num_str (fst (step num_str st ev)) evs)"
      by (simp add: run_Cons del: run.simps)
    with Cons.IH Cons.prems show ?thesis by blast
  qed
qed

lemma consistent_length:
  assumes "consistent st"
  shows "length (connectedUsers st) = length (connections st)"
proof -
  from assms have "length (map fst (connectedUsers st)) = card (set (map fst (connectedUsers st)))"
    unfolding consistent_def by (metis distinct_card)
  moreover from assms have "length (connections st) = card (set (connections st))"
    unfolding consistent_def by (metis distinct_card)
  moreover from assms have "set (map fst (connectedUsers st)) = set (connections st)"
    unfolding consistent_def by blast
  ultimately show ?thesis by simp
qed

lemma consistent_step:
  assumes "consistent st" and "enabled st ev"
    and "case ev of
           Message c m \<Rightarrow>
             map fst (connectedUsers (fst (onMessage c m st))) = map fst (connectedUsers st)
         | _ \<Rightarrow> True"
  shows "consistent (fst (step num_str st ev))"
proof (cases ev)
  case (Connect c rnd)
  with assms show ?thesis
    by (auto simp add: consistent_def onConnect_def Let_def AList.update_keys
        AList.distinct_update)
next
  case (Message c m)
  with assms show ?thesis
    by (simp add: consistent_def onMessage_connections)
next
  case (Close c)
  with assms show ?thesis
    by (auto simp add: consistent_def onClose_def Let_def AList.delete_keys
        distinct_removeAll)
qed

lemma run_consistent:
  "consistent st \<Longrightarrow> no_eviction num_str st evs \<Longrightarrow>
   (st', effs) \<in> set (run num_str st evs) \<Longrightarrow> consistent st'"
proof (induction evs arbitrary: st)
  case Nil
  then show ?case by simp
next
  case (Cons ev evs)
  from Cons.prems have c1: "consistent (fst (step num_str st ev))"
    by (intro consistent_step) simp_all
  show ?case
  proof (cases "(st', effs) = step num_str st ev")
    case True
    with c1 show ?thesis by (metis fst_conv)
  next
    case False
    with Cons.prems have "(st', effs) \<in> set (run num_str (fst (step num_str st ev)) evs)"
      by (simp add: run_Cons del: run.simps)
    moreover from Cons.prems have "no_eviction num_str (fst (step num_str st ev)) evs"
      by simp
    ultimately show ?thesis using Cons.IH c1 by blast
  qed
qed

lemma consistent_initial: "consistent initial"
  by (simp add: consistent_def initial_def)

text \<open>
  Claim C2, as amended. In every run from the empty room, the count carried by a
  \<^verbatim>\<open>user-count\<close> broadcast is the number of open connections at that moment (the
  state the event leaves). It is the number of sessions in the table as well in every run
  that the transport can produce and in which no message takes a session out of the
  table.
\<close>

theorem user_count_is_connection_count:
  "\<forall>(st', effs) \<in> set (run num_str initial evs). \<forall>e \<in> set effs.
      is_user_count e \<longrightarrow>
        count_of e = JNum (of_nat (length (connections st')))
        \<and> (no_eviction num_str initial evs \<longrightarrow>
             count_of e = JNum (of_nat (length (connectedUsers st'))))"
proof (intro ballI, clarify)
  fix st' effs e
  assume r: "(st', effs) \<in> set (run num_str initial evs)" and e: "e \<in> set effs"
    and u: "is_user_count e"
  have a: "count_of e = JNum (of_nat (length (connections st')))"
    using r e u by (rule run_user_count)
  have b: "count_of e = JNum (of_nat (length (connectedUsers st')))"
    if "no_eviction num_str initial evs"
  proof -
    from consistent_initial that r have "consistent st'" by (rule run_consistent)
    then show ?thesis using a by (simp add: consistent_length)
  qed
  from a b show "count_of e = JNum (of_nat (length (connections st')))
        \<and> (no_eviction num_str initial evs \<longrightarrow>
             count_of e = JNum (of_nat (length (connectedUsers st'))))"
    by blast
qed

theorem user_count_is_connection_count_witness:
  "no_eviction no_digits initial calm_run
   \<and> is_user_count (last (snd (last (run no_digits initial calm_run))))
   \<and> count_of (last (snd (last (run no_digits initial calm_run)))) = JNum 1
   \<and> length (connectedUsers (fst (last (run no_digits initial calm_run)))) = 1"
proof -
  define h where "h = run no_digits initial calm_run"
  have ne: "no_eviction no_digits initial calm_run"
    by (simp add: calm_run_def initial_def onConnect_def onClose_def Let_def)
  have l: "last h =
     (\<lparr>connectedUsers =
         [(''b'', \<lparr>color = JStr (generateRandomColor no_digits (0, 0, 0)),
                   persistentUserId = JUndefined,
                   lastCursorPosition = JUndefined, lastCursorNormal = JUndefined\<rparr>)],
       connections = [''b'']\<rparr>,
      [Broadcast (JObj [(''type'', JStr ''user-disconnect''), (''sessionId'', JStr ''a'')]) [],
       Broadcast (JObj [(''type'', JStr ''user-count''), (''count'', JNum 1)]) []])"
    by (simp add: h_def calm_run_def initial_def onConnect_def onClose_def Let_def
        broadcastUserCount_def sendExistingUsers_def)
  have m: "last h \<in> set h"
    by (simp add: h_def calm_run_def run_Cons del: run.simps)
  have u: "is_user_count (last (snd (last h)))"
    by (simp add: l is_user_count_def read_prop_def)
  have e: "last (snd (last h)) \<in> set (snd (last h))"
    by (simp add: l)
  have len: "length (connectedUsers (fst (last h))) = 1"
    by (simp add: l)
  from user_count_is_connection_count [of no_digits calm_run] m e u ne
  have "count_of (last (snd (last h)))
        = JNum (of_nat (length (connectedUsers (fst (last h)))))"
    unfolding h_def [symmetric] by (cases "last h") auto
  with ne u len show ?thesis
    unfolding h_def by simp
qed

text \<open>
  The claim as it was stated fails once an \<^verbatim>\<open>identify\<close> has evicted a session
  whose connection stays open: when \<open>c\<close> connects after the eviction of \<open>a\<close>,
  the broadcast says 3, for the open connections \<open>a\<close>, \<open>b\<close>, \<open>c\<close>, and
  the table holds the two sessions \<open>b\<close> and \<open>c\<close>.
\<close>

theorem user_count_exceeds_sessions:
  "all_enabled no_digits initial ghost_run
   \<and> last (snd (last (run no_digits initial ghost_run)))
       = Broadcast (JObj [(''type'', JStr ''user-count''), (''count'', JNum 3)]) []
   \<and> map fst (connectedUsers (fst (last (run no_digits initial ghost_run)))) = [''b'', ''c'']
   \<and> connections (fst (last (run no_digits initial ghost_run))) = [''a'', ''b'', ''c'']"
  by (simp add: ghost_run_def eviction_run_def initial_def onConnect_def Let_def
      onMessage_def try_body_def JSON_parse_def on_identify_def read_prop_def
      cleanupOldSessions_def toRemove_def AList.delete_eq broadcastUserCount_def
      sendExistingUsers_def)

section \<open>The colour of a session\<close>

lemma list_all_update:
  "list_all P al \<Longrightarrow> P (k, v) \<Longrightarrow> list_all P (AList.update k v al)"
  by (induction al) auto

lemma list_all_delete:
  "list_all P al \<Longrightarrow> list_all P (AList.delete k al)"
  by (induction al) auto

lemma list_all_filter:
  "list_all P al \<Longrightarrow> list_all P (filter Q al)"
  by (induction al) auto

lemma colors_set_lookup:
  assumes "colors_set st" and "map_of (connectedUsers st) c = Some user"
  shows "color user \<noteq> JUndefined"
proof -
  from assms(2) have "(c, user) \<in> set (connectedUsers st)" by (rule map_of_SomeD)
  with assms(1) show ?thesis
    by (fastforce simp add: colors_set_def list_all_iff)
qed

lemma on_identify_colors_set:
  assumes "colors_set st"
  shows "colors_set (fst (on_identify c data st))"
proof (cases "map_of (connectedUsers st) c")
  case None
  with assms show ?thesis by (simp add: on_identify_def)
next
  case (Some user)
  from assms Some have "color user \<noteq> JUndefined" by (rule colors_set_lookup)
  with assms show ?thesis
    unfolding on_identify_registered [OF Some]
    by (simp add: colors_set_def list_all_update list_all_filter)
qed

lemma on_cursor_move_colors_set:
  assumes "colors_set st"
  shows "colors_set (fst (on_cursor_move c data st))"
proof (cases "map_of (connectedUsers st) c")
  case None
  with assms show ?thesis by (simp add: on_cursor_move_def)
next
  case (Some user)
  from assms Some have "color user \<noteq> JUndefined" by (rule colors_set_lookup)
  with assms Some show ?thesis
    by (simp add: on_cursor_move_def colors_set_def list_all_update)
qed

lemma on_user_color_change_colors_set:
  assumes "colors_set st" and "read_prop data ''color'' \<noteq> JUndefined"
  shows "colors_set (fst (on_user_color_change c data st))"
  using assms
  by (simp add: on_user_color_change_def colors_set_def list_all_update split: option.splits)

lemma onMessage_colors_set:
  assumes "colors_set st" and "carries_color (Message c m)"
  shows "colors_set (fst (onMessage c m st))"
proof (cases m)
  case Malformed
  with assms show ?thesis by (simp add: onMessage_Malformed)
next
  case (Parsed data)
  show ?thesis
  proof (cases "get_prop data ''type''")
    case (Inl e)
    with Parsed assms show ?thesis
      by (simp add: onMessage_def try_body_def JSON_parse_def)
  next
    case (Inr t)
    with Parsed have eq: "onMessage c m st =
       (if t = JStr ''identify'' then on_identify c data st
        else if t = JStr ''cursor-move'' then on_cursor_move c data st
        else if t = JStr ''cursor-leave'' then on_cursor_leave c data st
        else if t = JStr ''user-color-change'' then on_user_color_change c data st
        else if t = JStr ''camera-sync'' then on_camera_sync c data st
        else (st, []))"
      by (simp add: onMessage_def try_body_def JSON_parse_def)
    from assms(2) Parsed Inr
    have cc: "t = JStr ''user-color-change'' \<longrightarrow> read_prop data ''color'' \<noteq> JUndefined"
      by simp
    from assms(1) cc show ?thesis
      unfolding eq
      by (simp add: on_identify_colors_set on_cursor_move_colors_set
          on_user_color_change_colors_set on_cursor_leave_def on_camera_sync_def)
  qed
qed

lemma step_colors_set:
  assumes "colors_set st" and "carries_color ev"
  shows "colors_set (fst (step num_str st ev))"
proof (cases ev)
  case (Connect c rnd)
  with assms show ?thesis
    by (simp add: onConnect_def Let_def colors_set_def list_all_update)
next
  case (Message c m)
  with assms show ?thesis by (simp add: onMessage_colors_set)
next
  case (Close c)
  with assms show ?thesis
    by (simp add: onClose_def Let_def colors_set_def list_all_delete)
qed

lemma run_colors_set:
  "colors_set st \<Longrightarrow> list_all carries_color evs \<Longrightarrow>
   (st', effs) \<in> set (run num_str st evs) \<Longrightarrow> colors_set st'"
proof (induction evs arbitrary: st)
  case Nil
  then show ?case by simp
next
  case (Cons ev evs)
  from Cons.prems have c1: "colors_set (fst (step num_str st ev))"
    by (intro step_colors_set) simp_all
  show ?case
  proof (cases "(st', effs) = step num_str st ev")
    case True
    with c1 show ?thesis by (metis fst_conv)
  next
    case False
    with Cons.prems have "(st', effs) \<in> set (run num_str (fst (step num_str st ev)) evs)"
      by (simp add: run_Cons del: run.simps)
    moreover from Cons.prems have "list_all carries_color evs" by simp
    ultimately show ?thesis using Cons.IH c1 by blast
  qed
qed

text \<open>
  At the largest double below 1 the rounding shows: the exact saturation
  \<open>100 - 30 / 2 ^ 53\<close> and lightness \<open>70 - 20 / 2 ^ 53\<close> are rounded up to the
  bounds 100 and 70, and the product for the hue is rounded to the double just below 360.
\<close>

lemma show_nat_examples:
  "show_nat 180 = ''180''" "show_nat 85 = ''85''" "show_nat 60 = ''60''"
  "show_nat 359 = ''359''" "show_nat 100 = ''100''" "show_nat 70 = ''70''"
  by (simp_all add: show_nat.simps)

lemma top_draw_hue: "\<lfloor>fl (top_draw * 360)\<rfloor> = 359"
proof -
  have "fl (top_draw * 360) = 360 - 1 / 2 ^ 44"
    using fl_below_360 by (simp add: top_draw_def algebra_simps)
  moreover have "\<lfloor>(360::rat) - 1 / 2 ^ 44\<rfloor> = 359"
    by (rule floor_unique) simp_all
  ultimately show ?thesis by (simp only:)
qed

lemma top_draw_saturation: "fl (70 + fl (top_draw * 30)) = 100"
proof -
  have "rne ((top_draw * 30) / 2 powi (4 - 52)) = 30 * 2 ^ 48 - 1"
    by (rule rne_nearest) (simp_all add: top_draw_def power_int_minus)
  with fl_eval [of 4 "top_draw * 30"] have s1: "fl (top_draw * 30) = 30 - 1 / 2 ^ 48"
    by (simp add: top_draw_def power_int_minus)
  have "rne ((70 + (30 - 1 / 2 ^ 48)) / 2 powi (6 - 52)) = 100 * 2 ^ 46"
    by (rule rne_nearest) (simp_all add: power_int_minus)
  with fl_eval [of 6 "70 + (30 - 1 / 2 ^ 48)"] have s2: "fl (70 + (30 - 1 / 2 ^ 48)) = 100"
    by (simp add: power_int_minus)
  show ?thesis by (simp only: s1 s2)
qed

lemma top_draw_lightness: "fl (50 + fl (top_draw * 20)) = 70"
proof -
  have "rne ((top_draw * 20) / 2 powi (4 - 52)) = 20 * 2 ^ 48 - 1"
    by (rule rne_nearest) (simp_all add: top_draw_def power_int_minus)
  with fl_eval [of 4 "top_draw * 20"] have l1: "fl (top_draw * 20) = 20 - 1 / 2 ^ 48"
    by (simp add: top_draw_def power_int_minus)
  have "rne ((50 + (20 - 1 / 2 ^ 48)) / 2 powi (6 - 52)) = 70 * 2 ^ 46"
    by (rule rne_nearest) (simp_all add: power_int_minus)
  with fl_eval [of 6 "50 + (20 - 1 / 2 ^ 48)"] have l2: "fl (50 + (20 - 1 / 2 ^ 48)) = 70"
    by (simp add: power_int_minus)
  show ?thesis by (simp only: l1 l2)
qed

text \<open>
  Claim C9, as amended. Whatever doubles in \<open>[0, 1)\<close> the three draws are,
  \<^verbatim>\<open>onConnect\<close> leaves a session for the connection whose colour is the text
  \<open>hsl(h, s%, l%)\<close>, where \<open>h\<close> is the integer part of the double
  \<open>r\<^sub>1 * 360\<close>, an integer in \<open>[0, 360)\<close>, \<open>s\<close> is the double
  \<open>70 + r\<^sub>2 * 30\<close>, in \<open>[70, 100]\<close>, and \<open>l\<close> is the double
  \<open>50 + r\<^sub>3 * 20\<close>, in \<open>[50, 70]\<close>; the sessions of the other connections are
  left as they were. And in every run from the empty room in which each
  \<^verbatim>\<open>user-color-change\<close> frame carries a colour, every session of every state has
  its colour set.
\<close>

theorem color_set_at_connect_and_kept:
  "(fl r1 = r1 \<and> 0 \<le> r1 \<and> r1 < 1 \<and> fl r2 = r2 \<and> 0 \<le> r2 \<and> r2 < 1
      \<and> fl r3 = r3 \<and> 0 \<le> r3 \<and> r3 < 1
    \<longrightarrow> (let h = \<lfloor>fl (r1 * 360)\<rfloor>;
             s = fl (70 + fl (r2 * 30));
             l = fl (50 + fl (r3 * 20));
             st' = fst (onConnect num_str (r1, r2, r3) conn st)
         in map_of (connectedUsers st') conn =
              Some \<lparr>color = JStr (''hsl('' @ num_str (of_int h) @ '', '' @ num_str s @ ''%, ''
                                   @ num_str l @ ''%)''),
                    persistentUserId = JUndefined,
                    lastCursorPosition = JUndefined, lastCursorNormal = JUndefined\<rparr>
            \<and> 0 \<le> h \<and> h < 360 \<and> 70 \<le> s \<and> s \<le> 100 \<and> 50 \<le> l \<and> l \<le> 70
            \<and> (\<forall>sid. sid \<noteq> conn \<longrightarrow>
                  map_of (connectedUsers st') sid = map_of (connectedUsers st) sid)))
   \<and> (list_all carries_color evs
      \<longrightarrow> (\<forall>(st', effs) \<in> set (run num_str initial evs). colors_set st'))"
proof (intro conjI impI)
  assume d: "fl r1 = r1 \<and> 0 \<le> r1 \<and> r1 < 1 \<and> fl r2 = r2 \<and> 0 \<le> r2 \<and> r2 < 1
      \<and> fl r3 = r3 \<and> 0 \<le> r3 \<and> r3 < 1"
  have tbl: "map_of (connectedUsers (fst (onConnect num_str (r1, r2, r3) conn st))) conn =
              Some \<lparr>color = JStr (''hsl('' @ num_str (of_int \<lfloor>fl (r1 * 360)\<rfloor>) @ '', ''
                                   @ num_str (fl (70 + fl (r2 * 30))) @ ''%, ''
                                   @ num_str (fl (50 + fl (r3 * 20))) @ ''%)''),
                    persistentUserId = JUndefined,
                    lastCursorPosition = JUndefined, lastCursorNormal = JUndefined\<rparr>"
    by (simp add: onConnect_def Let_def generateRandomColor_def AList.update_conv')
  have rest: "\<forall>sid. sid \<noteq> conn \<longrightarrow>
      map_of (connectedUsers (fst (onConnect num_str (r1, r2, r3) conn st))) sid
        = map_of (connectedUsers st) sid"
    by (simp add: onConnect_def Let_def AList.update_conv')
  from d have h: "0 \<le> \<lfloor>fl (r1 * 360)\<rfloor> \<and> \<lfloor>fl (r1 * 360)\<rfloor> < 360"
    by (intro hue_bounds) simp_all
  from d have s: "70 \<le> fl (70 + fl (r2 * 30)) \<and> fl (70 + fl (r2 * 30)) \<le> 100"
    by (intro saturation_bounds) simp_all
  from d have l: "50 \<le> fl (50 + fl (r3 * 20)) \<and> fl (50 + fl (r3 * 20)) \<le> 70"
    by (intro lightness_bounds) simp_all
  show "let h = \<lfloor>fl (r1 * 360)\<rfloor>;
             s = fl (70 + fl (r2 * 30));
             l = fl (50 + fl (r3 * 20));
             st' = fst (onConnect num_str (r1, r2, r3) conn st)
         in map_of (connectedUsers st') conn =
              Some \<lparr>color = JStr (''hsl('' @ num_str (of_int h) @ '', '' @ num_str s @ ''%, ''
                                   @ num_str l @ ''%)''),
                    persistentUserId = JUndefined,
                    lastCursorPosition = JUndefined, lastCursorNormal = JUndefined\<rparr>
            \<and> 0 \<le> h \<and> h < 360 \<and> 70 \<le> s \<and> s \<le> 100 \<and> 50 \<le> l \<and> l \<le> 70
            \<and> (\<forall>sid. sid \<noteq> conn \<longrightarrow>
                  map_of (connectedUsers st') sid = map_of (connectedUsers st) sid)"
    unfolding Let_def using tbl rest h s l by simp
next
  assume c: "list_all carries_color evs"
  have i: "colors_set initial" by (simp add: colors_set_def initial_def)
  show "\<forall>(st', effs) \<in> set (run num_str initial evs). colors_set st'"
    using run_colors_set [OF i c] by auto
qed

theorem color_set_at_connect_and_kept_witness:
  "fl top_draw = top_draw \<and> 0 \<le> top_draw \<and> top_draw < 1
   \<and> map_of (connectedUsers (fst (onConnect decimal (top_draw, top_draw, top_draw) ''c'' room3)))
         ''c'' =
       Some \<lparr>color = JStr ''hsl(359, 100%, 70%)'', persistentUserId = JUndefined,
             lastCursorPosition = JUndefined, lastCursorNormal = JUndefined\<rparr>
   \<and> fl (1 / 2) = 1 / 2 \<and> (0::rat) \<le> 1 / 2 \<and> (1 / 2 :: rat) < 1
   \<and> map_of (connectedUsers (fst (onConnect decimal (1 / 2, 1 / 2, 1 / 2) ''c'' room3))) ''c'' =
       Some \<lparr>color = JStr ''hsl(180, 85%, 60%)'', persistentUserId = JUndefined,
             lastCursorPosition = JUndefined, lastCursorNormal = JUndefined\<rparr>
   \<and> list_all carries_color recolor_run
   \<and> colors_set (fst (last (run decimal initial recolor_run)))"
proof -
  have t: "fl top_draw = top_draw \<and> 0 \<le> top_draw \<and> top_draw < 1"
    by (simp add: fl_top_draw) (simp add: top_draw_def)
  have d: "fl (1 / 2) = 1 / 2 \<and> (0::rat) \<le> 1 / 2 \<and> (1 / 2 :: rat) < 1"
    by (simp add: fl_half)
  have c: "list_all carries_color recolor_run"
    by (simp add: recolor_run_def read_prop_def)
  note top = color_set_at_connect_and_kept
    [of top_draw top_draw top_draw decimal "''c''" room3 recolor_run]
  note half = color_set_at_connect_and_kept
    [of "1 / 2" "1 / 2" "1 / 2" decimal "''c''" room3 recolor_run]
  from top t have
    "map_of (connectedUsers (fst (onConnect decimal (top_draw, top_draw, top_draw) ''c'' room3)))
         ''c'' =
       Some \<lparr>color = JStr (''hsl('' @ decimal (of_int \<lfloor>fl (top_draw * 360)\<rfloor>) @ '', ''
                            @ decimal (fl (70 + fl (top_draw * 30))) @ ''%, ''
                            @ decimal (fl (50 + fl (top_draw * 20))) @ ''%)''),
             persistentUserId = JUndefined,
             lastCursorPosition = JUndefined, lastCursorNormal = JUndefined\<rparr>"
    unfolding Let_def by blast
  then have zero: "map_of (connectedUsers
        (fst (onConnect decimal (top_draw, top_draw, top_draw) ''c'' room3))) ''c'' =
       Some \<lparr>color = JStr ''hsl(359, 100%, 70%)'', persistentUserId = JUndefined,
             lastCursorPosition = JUndefined, lastCursorNormal = JUndefined\<rparr>"
    unfolding top_draw_hue top_draw_saturation top_draw_lightness
    by (simp add: decimal_def show_nat_examples)
  from half d have
    "map_of (connectedUsers (fst (onConnect decimal (1 / 2, 1 / 2, 1 / 2) ''c'' room3))) ''c'' =
       Some \<lparr>color = JStr (''hsl('' @ decimal (of_int \<lfloor>fl (1 / 2 * 360)\<rfloor>) @ '', ''
                            @ decimal (fl (70 + fl (1 / 2 * 30))) @ ''%, ''
                            @ decimal (fl (50 + fl (1 / 2 * 20))) @ ''%)''),
             persistentUserId = JUndefined,
             lastCursorPosition = JUndefined, lastCursorNormal = JUndefined\<rparr>"
    unfolding Let_def by blast
  then have one: "map_of (connectedUsers (fst (onConnect decimal (1 / 2, 1 / 2, 1 / 2) ''c'' room3))) ''c'' =
       Some \<lparr>color = JStr ''hsl(180, 85%, 60%)'', persistentUserId = JUndefined,
             lastCursorPosition = JUndefined, lastCursorNormal = JUndefined\<rparr>"
    by (simp add: decimal_def show_nat_examples)
  have m: "last (run decimal initial recolor_run) \<in> set (run decimal initial recolor_run)"
    by (simp add: recolor_run_def run_Cons del: run.simps)
  from half c have "\<forall>(st', effs) \<in> set (run decimal initial recolor_run). colors_set st'"
    by blast
  then have "\<forall>x \<in> set (run decimal initial recolor_run). colors_set (fst x)"
    by auto
  with m have two: "colors_set (fst (last (run decimal initial recolor_run)))"
    by blast
  from t zero d one c two show ?thesis by blast
qed

text \<open>
  The claim as it was stated fails after a \<^verbatim>\<open>user-color-change\<close> frame without
  \<^verbatim>\<open>color\<close>: the connection \<open>a\<close> is open, its session is in the table, and the
  colour of the session reads \<^verbatim>\<open>undefined\<close>.
\<close>

theorem color_absent_after_colorless_change:
  "all_enabled no_digits initial colorless_run
   \<and> map_of (connectedUsers (final no_digits initial colorless_run)) ''a'' =
       Some \<lparr>color = JUndefined, persistentUserId = JUndefined,
             lastCursorPosition = JUndefined, lastCursorNormal = JUndefined\<rparr>
   \<and> connections (final no_digits initial colorless_run) = [''a'']"
  by (simp add: colorless_run_def initial_def onConnect_def Let_def
      onMessage_def try_body_def JSON_parse_def on_user_color_change_def read_prop_def)

end
